theory Spec2Isabelle
  imports Complex_Main
begin

section \<open>JavaScript numbers\<close>

text \<open>
  The sources compute with JavaScript numbers.  Finite values are modelled as exact
  reals (binary rounding of doubles is idealised away); the three special values are
  kept, because the code relies on them: \<^verbatim>\<open>bestSize\<close> starts at \<^verbatim>\<open>Infinity\<close>, and the
  dimension formulas divide by quantities that can be zero.  Signed zeros are identified.
\<close>

datatype jsnum = Fin real | PosInf | NegInf | NaN

text \<open>\<^verbatim>\<open>a < b\<close>; every comparison with \<^verbatim>\<open>NaN\<close> is false.\<close>

fun js_lt :: "jsnum \<Rightarrow> jsnum \<Rightarrow> bool" where
  "js_lt NaN b = False"
| "js_lt a NaN = False"
| "js_lt (Fin a) (Fin b) = (a < b)"
| "js_lt (Fin a) PosInf = True"
| "js_lt (Fin a) NegInf = False"
| "js_lt PosInf b = False"
| "js_lt NegInf NegInf = False"
| "js_lt NegInf b = True"

definition js_gt :: "jsnum \<Rightarrow> jsnum \<Rightarrow> bool" where
  "js_gt a b = js_lt b a"

text \<open>The sign of a number: \<open>1\<close>, \<open>0\<close> or \<open>-1\<close> (not used on \<^verbatim>\<open>NaN\<close>).\<close>

fun js_sign :: "jsnum \<Rightarrow> int" where
  "js_sign (Fin a) = (if a > 0 then 1 else if a < 0 then -1 else 0)"
| "js_sign PosInf = 1"
| "js_sign NegInf = -1"
| "js_sign NaN = 0"

definition js_inf :: "int \<Rightarrow> jsnum" where
  "js_inf s = (if s > 0 then PosInf else if s < 0 then NegInf else NaN)"

text \<open>\<^verbatim>\<open>a * b\<close>: zero times infinity is \<^verbatim>\<open>NaN\<close>.\<close>

fun js_mul :: "jsnum \<Rightarrow> jsnum \<Rightarrow> jsnum" where
  "js_mul NaN b = NaN"
| "js_mul a NaN = NaN"
| "js_mul (Fin a) (Fin b) = Fin (a * b)"
| "js_mul a b = js_inf (js_sign a * js_sign b)"

text \<open>
  \<^verbatim>\<open>a / b\<close>: a non-zero number over zero is an infinity, zero over zero and infinity
  over infinity are \<^verbatim>\<open>NaN\<close>, a finite number over an infinity is zero.
\<close>

fun js_div :: "jsnum \<Rightarrow> jsnum \<Rightarrow> jsnum" where
  "js_div NaN b = NaN"
| "js_div a NaN = NaN"
| "js_div (Fin a) (Fin b) = (if b = 0 then js_inf (js_sign (Fin a)) else Fin (a / b))"
| "js_div (Fin a) b = Fin 0"
| "js_div a (Fin b) = js_inf (js_sign a * (if b < 0 then -1 else 1))"
| "js_div a b = NaN"

text \<open>\<^verbatim>\<open>Math.sqrt\<close>, \<^verbatim>\<open>Math.floor\<close>, \<^verbatim>\<open>Math.round\<close> (half up), \<^verbatim>\<open>Math.max\<close>, \<^verbatim>\<open>Math.min\<close>.\<close>

fun Math_sqrt :: "jsnum \<Rightarrow> jsnum" where
  "Math_sqrt (Fin a) = (if a < 0 then NaN else Fin (sqrt a))"
| "Math_sqrt PosInf = PosInf"
| "Math_sqrt NegInf = NaN"
| "Math_sqrt NaN = NaN"

definition round_half_up :: "real \<Rightarrow> int" where
  "round_half_up x = \<lfloor>x + 1 / 2\<rfloor>"

fun Math_floor :: "jsnum \<Rightarrow> jsnum" where
  "Math_floor (Fin a) = Fin (of_int \<lfloor>a\<rfloor>)"
| "Math_floor a = a"

fun Math_round :: "jsnum \<Rightarrow> jsnum" where
  "Math_round (Fin a) = Fin (of_int (round_half_up a))"
| "Math_round a = a"

fun Math_max :: "jsnum \<Rightarrow> jsnum \<Rightarrow> jsnum" where
  "Math_max NaN b = NaN"
| "Math_max a NaN = NaN"
| "Math_max a b = (if js_lt a b then b else a)"

fun Math_min :: "jsnum \<Rightarrow> jsnum \<Rightarrow> jsnum" where
  "Math_min NaN b = NaN"
| "Math_min a NaN = NaN"
| "Math_min a b = (if js_lt b a then b else a)"

text \<open>Truthiness of a number, as \<^verbatim>\<open>||\<close> tests it: zero and \<^verbatim>\<open>NaN\<close> are falsy.\<close>

definition js_or :: "jsnum \<Rightarrow> jsnum \<Rightarrow> jsnum" where
  "js_or a b = (if a = Fin 0 \<or> a = NaN then b else a)"

section \<open>Blobs, images, canvases and the capabilities of the browser\<close>

text \<open>
  A \<^verbatim>\<open>Blob\<close> (a \<^verbatim>\<open>File\<close> is one) is its bytes and its MIME type; \<^verbatim>\<open>blob.size\<close> is the
  number of bytes.
\<close>

record blob =
  bytes :: "nat list"
  mime :: string

definition bsize :: "blob \<Rightarrow> real" where
  "bsize b = real (length (bytes b))"

record image =
  img_width :: nat
  img_height :: nat
  pixels :: "nat list"

text \<open>
  A canvas is described by what was drawn on it and at which size: the surface it was
  drawn from (a decoded image, or a page of a document rendered at some scale), whether
  the drawing stretches the source over the whole canvas or letterboxes it on white
  (\<^verbatim>\<open>resizeToExact\<close>), and the width and height assigned to it.
\<close>

datatype surface = ImageSurface image | PageSurface blob int real

datatype fit = Stretch | Letterbox

record canvas =
  c_surface :: surface
  c_fit :: fit
  c_width :: jsnum
  c_height :: jsnum

text \<open>
  What a call does besides returning: progress notifications, canvases drawn, encodes
  (\<^verbatim>\<open>canvas.toBlob\<close> with the format and quality), pages rendered, and whole-document
  rebuilds.  \<^verbatim>\<open>canvas.toBlob\<close> is a parameter \<open>toBlob\<close> of the model; it hands
  \<^verbatim>\<open>null\<close> to its callback (here \<open>None\<close>) when the canvas cannot be encoded.
\<close>

datatype event =
    Progress int
  | Draw canvas
  | Encode canvas string real
  | Render int real
  | Rebuild real

text \<open>
  A promise that does not deliver a value either rejects, or never settles (an exception
  thrown inside the \<^verbatim>\<open>toBlob\<close> callback leaves the promise pending).
\<close>

datatype failure = Rejected | NeverSettles

section \<open>Image compression: the quality search\<close>

record search_result =
  r_blob :: "blob option"
  r_size :: jsnum
  r_quality :: real
  r_warning :: bool

text \<open>The variables that \<^verbatim>\<open>tryCompress\<close> reads and updates between encodes.\<close>

record search_state =
  quality :: real
  iteration :: nat
  bestBlob :: "blob option"
  bestSize :: jsnum
  bestQuality :: real

abbreviation minQuality :: real where "minQuality \<equiv> 0.3"
abbreviation maxIterations :: nat where "maxIterations \<equiv> 25"
abbreviation startQuality :: real where "startQuality \<equiv> 0.92"

definition prepend :: "event list \<Rightarrow> 'a \<times> event list \<Rightarrow> 'a \<times> event list" where
  "prepend ev r = (fst r, ev @ snd r)"

text \<open>
  The body of the \<^verbatim>\<open>toBlob\<close> callback of \<^verbatim>\<open>tryCompress\<close>, once it holds a blob: it
  either resolves the promise, or adjusts the quality and schedules \<^verbatim>\<open>tryCompress\<close>
  again (\<^verbatim>\<open>setTimeout(tryCompress, 0)\<close>).
\<close>

datatype next_step = Resolve search_result | Again search_state

definition onBlob :: "real \<Rightarrow> search_state \<Rightarrow> blob \<Rightarrow> next_step" where
  "onBlob targetSizeBytes st blob =
    (let minTargetBytes = targetSizeBytes * 0.85 in
     if bsize blob \<le> targetSizeBytes \<and> bsize blob \<ge> minTargetBytes then
       Resolve \<lparr>r_blob = Some blob, r_size = Fin (bsize blob), r_quality = quality st,
                r_warning = False\<rparr>
     else
       let st1 = (if bsize blob \<le> targetSizeBytes \<and> js_lt (Fin (bsize blob)) (bestSize st)
                  then st\<lparr>bestBlob := Some blob, bestSize := Fin (bsize blob),
                          bestQuality := quality st\<rparr>
                  else st)
       in
       if iteration st = 0 \<and> bsize blob < minTargetBytes * 0.5 then
         Resolve \<lparr>r_blob = Some blob, r_size = Fin (bsize blob), r_quality = quality st,
                  r_warning = False\<rparr>
       else if bsize blob > targetSizeBytes then
         if quality st \<le> minQuality then
           Resolve \<lparr>r_blob = Some (case bestBlob st1 of Some b \<Rightarrow> b | None \<Rightarrow> blob),
                    r_size = js_or (bestSize st1) (Fin (bsize blob)),
                    r_quality = (if bestQuality st1 = 0 then quality st else bestQuality st1),
                    r_warning = True\<rparr>
         else
           let reduction = (if bsize blob > targetSizeBytes * 2 then 0.15 else 0.08) in
           Again (st1\<lparr>quality := max minQuality (quality st - reduction),
                      iteration := iteration st + 1\<rparr>)
       else if bsize blob < minTargetBytes \<and> quality st < 0.98 then
         Again (st1\<lparr>quality := min 0.98 (quality st + 0.05),
                    iteration := iteration st + 1\<rparr>)
       else
         Resolve \<lparr>r_blob = Some blob, r_size = Fin (bsize blob), r_quality = quality st,
                  r_warning = bsize blob > targetSizeBytes\<rparr>)"

lemma onBlob_Again_iteration:
  "onBlob t st b = Again st' \<Longrightarrow> iteration st' = Suc (iteration st)"
  by (auto simp: onBlob_def Let_def split: if_splits)

text \<open>
  \<^verbatim>\<open>tryCompress\<close>: at the iteration cap it resolves with the best blob recorded;
  otherwise it encodes at the current quality and notifies the progress callback.  The
  callback is notified before the blob is looked at, so a \<^verbatim>\<open>null\<close> blob makes
  \<^verbatim>\<open>blob.size\<close> throw inside the \<^verbatim>\<open>toBlob\<close> callback and the promise never settles.
\<close>

function tryCompress ::
  "(canvas \<Rightarrow> string \<Rightarrow> real \<Rightarrow> blob option) \<Rightarrow> canvas \<Rightarrow> string \<Rightarrow> real \<Rightarrow>
   search_state \<Rightarrow> (failure + search_result) \<times> event list" where
  "tryCompress toBlob canvas format targetSizeBytes st =
    (if iteration st \<ge> maxIterations then
       (Inr (case bestBlob st of
               Some b \<Rightarrow> \<lparr>r_blob = Some b, r_size = bestSize st, r_quality = bestQuality st,
                          r_warning = js_gt (bestSize st) (Fin targetSizeBytes)\<rparr>
             | None \<Rightarrow> \<lparr>r_blob = None, r_size = Fin 0, r_quality = 0, r_warning = True\<rparr>), [])
     else
       let ev = [Encode canvas format (quality st),
                 Progress (min 100 (round_half_up
                   ((real (iteration st) / real maxIterations) * 100)))]
       in
       (case toBlob canvas format (quality st) of
          None \<Rightarrow> (Inl NeverSettles, ev)
        | Some blob \<Rightarrow>
            (case onBlob targetSizeBytes st blob of
               Resolve result \<Rightarrow> (Inr result, ev)
             | Again st' \<Rightarrow> prepend ev (tryCompress toBlob canvas format targetSizeBytes st'))))"
  by pat_completeness auto
termination
  by (relation "measure (\<lambda>(toBlob, canvas, format, targetSizeBytes, st). maxIterations - iteration st)")
     (auto dest: onBlob_Again_iteration)

definition compressImage ::
  "(canvas \<Rightarrow> string \<Rightarrow> real \<Rightarrow> blob option) \<Rightarrow> canvas \<Rightarrow> string \<Rightarrow> real \<Rightarrow>
   (failure + search_result) \<times> event list" where
  "compressImage toBlob canvas format targetSizeKB =
     tryCompress toBlob canvas format (targetSizeKB * 1024)
       \<lparr>quality = startQuality, iteration = 0, bestBlob = None, bestSize = PosInf,
        bestQuality = startQuality\<rparr>"

section \<open>Smart dimension calculation\<close>

record dims =
  width :: jsnum
  height :: jsnum

text \<open>
  \<^verbatim>\<open>calculateOptimalDimensions\<close>.  The arguments are finite numbers; the intermediate
  values need not be (a zero \<^verbatim>\<open>targetPixels\<close> makes the scale infinite and the result
  \<^verbatim>\<open>NaN\<close>).
\<close>

definition calculateOptimalDimensions ::
  "real \<Rightarrow> real \<Rightarrow> real \<Rightarrow> real \<Rightarrow> real \<Rightarrow> real \<Rightarrow> dims" where
  "calculateOptimalDimensions originalWidth originalHeight currentSize targetSize maxWidth maxHeight =
    (let originalPixels = originalWidth * originalHeight;
         targetPixels = Math_floor (js_div (Fin (originalPixels * targetSize))
                                           (Fin (currentSize * 1.2)));
         aspectRatio = js_div (Fin originalWidth) (Fin originalHeight);
         newHeight = Math_sqrt (js_div targetPixels aspectRatio);
         newWidth = js_mul newHeight aspectRatio;
         (newWidth, newHeight) =
           (if js_gt newWidth (Fin maxWidth)
            then (Fin maxWidth, js_div (Fin maxWidth) aspectRatio)
            else (newWidth, newHeight));
         (newWidth, newHeight) =
           (if js_gt newHeight (Fin maxHeight)
            then (js_mul (Fin maxHeight) aspectRatio, Fin maxHeight)
            else (newWidth, newHeight));
         minDimension = Fin 200;
         (newWidth, newHeight) =
           (if js_lt newWidth minDimension \<or> js_lt newHeight minDimension
            then let scale = Math_max (js_div minDimension newWidth)
                                      (js_div minDimension newHeight)
                 in (Math_min (js_mul newWidth scale) (Fin maxWidth),
                     Math_min (js_mul newHeight scale) (Fin maxHeight))
            else (newWidth, newHeight))
     in \<lparr>width = Math_round newWidth, height = Math_round newHeight\<rparr>)"

text \<open>
  \<^verbatim>\<open>resizeToExact\<close>: a canvas of exactly the given size, the image drawn centred on
  white with its own aspect ratio.
\<close>

definition resizeToExact :: "image \<Rightarrow> jsnum \<Rightarrow> jsnum \<Rightarrow> canvas" where
  "resizeToExact img w h =
     \<lparr>c_surface = ImageSurface img, c_fit = Letterbox, c_width = w, c_height = h\<rparr>"

section \<open>The single-image pipeline\<close>

record preset =
  maxSizeKB :: real
  format :: string
  widthPx :: real
  heightPx :: real

record outcome =
  out_blob :: "blob option"
  originalSize :: real
  newSize :: jsnum
  originalDimensions :: dims
  newDimensions :: dims
  warning :: bool
  alreadyOptimal :: bool

text \<open>The notifications a progress callback that ignores its argument lets through.\<close>

fun isProgress :: "event \<Rightarrow> bool" where
  "isProgress (Progress p) = True"
| "isProgress e = False"

definition silenced :: "event list \<Rightarrow> event list" where
  "silenced ev = filter (\<lambda>e. \<not> isProgress e) ev"

text \<open>
  \<^verbatim>\<open>processImage\<close>, called with a progress callback.  \<open>loadImage\<close> is the decoder: it
  yields no image when the file cannot be decoded, and the call rejects.  A \<^verbatim>\<open>null\<close>
  test blob makes \<^verbatim>\<open>testBlob.size\<close> throw, which rejects the call as well; a search
  that never settles leaves the call pending.  The retry runs its search with a
  callback that does nothing.
\<close>

definition processImage ::
  "(blob \<Rightarrow> image option) \<Rightarrow> (canvas \<Rightarrow> string \<Rightarrow> real \<Rightarrow> blob option) \<Rightarrow>
   blob \<Rightarrow> preset \<Rightarrow> (failure + outcome) \<times> event list" where
  "processImage loadImage toBlob file preset =
    (case loadImage file of
       None \<Rightarrow> (Inl Rejected, [Progress 10])
     | Some img \<Rightarrow>
        let originalSize = bsize file;
            originalDimensions = \<lparr>width = Fin (real (img_width img)),
                                  height = Fin (real (img_height img))\<rparr>;
            targetSizeBytes = maxSizeKB preset * 1024
        in
        if originalSize \<le> targetSizeBytes then
          if mime file = format preset then
            (Inr \<lparr>out_blob = Some file, originalSize = originalSize,
                  newSize = Fin originalSize, originalDimensions = originalDimensions,
                  newDimensions = originalDimensions, warning = False,
                  alreadyOptimal = True\<rparr>,
             [Progress 10, Progress 20])
          else
            let canvas = resizeToExact img (Fin (real (img_width img)))
                                           (Fin (real (img_height img)));
                search = compressImage toBlob canvas (format preset) (maxSizeKB preset);
                ev = [Progress 10, Progress 20, Draw canvas] @ snd search
            in
            (case fst search of
               Inl f \<Rightarrow> (Inl f, ev)
             | Inr result \<Rightarrow>
                 (Inr \<lparr>out_blob = r_blob result, originalSize = originalSize,
                       newSize = r_size result, originalDimensions = originalDimensions,
                       newDimensions = \<lparr>width = Fin (real (img_width img)),
                                         height = Fin (real (img_height img))\<rparr>,
                       warning = r_warning result,
                       alreadyOptimal = (\<not> r_warning result)\<rparr>, ev))
        else
          let testScale = 0.2;
              testWidth = max 100 \<lfloor>real (img_width img) * testScale\<rfloor>;
              testHeight = max 100 \<lfloor>real (img_height img) * testScale\<rfloor>;
              testCanvas = \<lparr>c_surface = ImageSurface img, c_fit = Stretch,
                             c_width = Fin (of_int testWidth),
                             c_height = Fin (of_int testHeight)\<rparr>;
              ev1 = [Progress 10, Progress 20, Draw testCanvas,
                     Encode testCanvas (format preset) 0.8, Progress 35]
          in
          (case toBlob testCanvas (format preset) 0.8 of
             None \<Rightarrow> (Inl Rejected, ev1)
           | Some testBlob \<Rightarrow>
              let estimatedFullSize = bsize testBlob / (testScale * testScale);
                  optimalDims = calculateOptimalDimensions
                    (real (img_width img)) (real (img_height img)) estimatedFullSize
                    targetSizeBytes (widthPx preset) (heightPx preset);
                  canvas = resizeToExact img (width optimalDims) (height optimalDims);
                  search = compressImage toBlob canvas (format preset) (maxSizeKB preset);
                  ev2 = ev1 @ [Progress 45, Draw canvas, Progress 55] @ snd search
              in
              (case fst search of
                 Inl f \<Rightarrow> (Inl f, ev2)
               | Inr result \<Rightarrow>
                  let ev3 = ev2 @ [Progress 100];
                      firstOutcome =
                        \<lparr>out_blob = r_blob result, originalSize = originalSize,
                         newSize = r_size result, originalDimensions = originalDimensions,
                         newDimensions = \<lparr>width = width optimalDims,
                                           height = height optimalDims\<rparr>,
                         warning = js_gt (r_size result) (Fin targetSizeBytes),
                         alreadyOptimal = False\<rparr>
                  in
                  if js_gt (r_size result) (Fin targetSizeBytes) \<and>
                     js_gt (r_size result) (Fin (originalSize * 0.5))
                  then
                    let sizeRatio = js_div (Fin targetSizeBytes) (r_size result);
                        dimRatio = Math_sqrt sizeRatio;
                        retryWidth = Math_max (Fin 100) (Math_floor
                          (js_mul (js_mul (width optimalDims) dimRatio) (Fin 0.9)));
                        retryHeight = Math_max (Fin 100) (Math_floor
                          (js_mul (js_mul (height optimalDims) dimRatio) (Fin 0.9)));
                        retryCanvas = resizeToExact img retryWidth retryHeight;
                        retry = compressImage toBlob retryCanvas (format preset)
                                  (maxSizeKB preset);
                        ev4 = ev3 @ [Draw retryCanvas] @ silenced (snd retry)
                    in
                    (case fst retry of
                       Inl f \<Rightarrow> (Inl f, ev4)
                     | Inr retryResult \<Rightarrow>
                        if js_lt (r_size retryResult) (r_size result) then
                          (Inr \<lparr>out_blob = r_blob retryResult, originalSize = originalSize,
                                newSize = r_size retryResult,
                                originalDimensions = originalDimensions,
                                newDimensions = \<lparr>width = retryWidth, height = retryHeight\<rparr>,
                                warning = js_gt (r_size retryResult) (Fin targetSizeBytes),
                                alreadyOptimal = False\<rparr>, ev4)
                        else (Inr firstOutcome, ev4))
                  else (Inr firstOutcome, ev3))))"

section \<open>Whole-document compression\<close>

record page_outcome = outcome +
  pageCount :: nat
  pageNum :: int

record doc_outcome = page_outcome +
  out_size :: jsnum

abbreviation maxAttempts :: nat where "maxAttempts \<equiv> 10"

text \<open>
  The three blocks that follow each rebuild in \<^verbatim>\<open>compressFullPDF\<close>: tracking the best
  blob, the test for the target range, and the adjustment of the quality.
\<close>

definition trackBest :: "real \<Rightarrow> blob \<Rightarrow> blob option \<times> jsnum \<Rightarrow> blob option \<times> jsnum" where
  "trackBest targetSizeBytes blob best =
    (if bsize blob \<le> targetSizeBytes \<and> js_gt (Fin (bsize blob)) (snd best)
     then (Some blob, Fin (bsize blob))
     else if fst best = None \<or> js_lt (Fin (bsize blob)) (snd best)
     then (Some blob, Fin (bsize blob))
     else best)"

datatype doc_step = Accept | Stop | Adjust real

definition adjustQuality :: "real \<Rightarrow> real \<Rightarrow> blob \<Rightarrow> doc_step" where
  "adjustQuality targetSizeBytes q blob =
    (if bsize blob \<le> targetSizeBytes \<and> bsize blob \<ge> targetSizeBytes * 0.9 then Accept
     else if bsize blob > targetSizeBytes then
       (if q \<le> 0.2 then Stop else Adjust (max 0.2 (q - 0.1)))
     else
       (if q < 0.85 then Adjust (min 0.85 (q + 0.05)) else Stop))"

text \<open>
  The attempt loop.  \<open>rebuild q\<close> stands for one rebuild of the whole document at
  quality \<open>q\<close> (every page rendered to JPEG and embedded, the document saved); it can
  fail.  The result is the blob, the size and the warning of the object returned.
\<close>

function attemptLoop ::
  "(real \<Rightarrow> failure + blob) \<Rightarrow> real \<Rightarrow> nat \<Rightarrow> real \<Rightarrow> blob option \<times> jsnum \<Rightarrow>
   (failure + blob option \<times> jsnum \<times> bool) \<times> event list" where
  "attemptLoop rebuild targetSizeBytes attempt q best =
    (if attempt < maxAttempts then
       let ev = [Progress (10 + round_half_up ((real attempt / real maxAttempts) * 80)),
                 Rebuild q]
       in
       (case rebuild q of
          Inl f \<Rightarrow> (Inl f, ev)
        | Inr blob \<Rightarrow>
            let best1 = trackBest targetSizeBytes blob best in
            (case adjustQuality targetSizeBytes q blob of
               Accept \<Rightarrow> (Inr (Some blob, Fin (bsize blob), False), ev @ [Progress 100])
             | Stop \<Rightarrow>
                 (Inr (fst best1, snd best1, js_gt (snd best1) (Fin targetSizeBytes)),
                  ev @ [Progress 100])
             | Adjust q' \<Rightarrow>
                 prepend ev (attemptLoop rebuild targetSizeBytes (attempt + 1) q' best1)))
     else
       (Inr (fst best, snd best, js_gt (snd best) (Fin targetSizeBytes)), [Progress 100]))"
  by pat_completeness auto
termination
  by (relation "measure (\<lambda>(rebuild, targetSizeBytes, attempt, q, best). maxAttempts - attempt)")
     auto

definition compressFullPDF ::
  "(blob \<Rightarrow> nat option) \<Rightarrow> (blob \<Rightarrow> nat \<Rightarrow> real \<Rightarrow> failure + blob) \<Rightarrow> blob \<Rightarrow> real \<Rightarrow>
   (failure + doc_outcome) \<times> event list" where
  "compressFullPDF getPageCount rebuildPDF file targetSizeKB =
    (case getPageCount file of
       None \<Rightarrow> (Inl Rejected, [])
     | Some n \<Rightarrow>
        let targetSizeBytes = targetSizeKB * 1024;
            targetWidth = Fin 595;
            targetHeight = Fin 842;
            run = attemptLoop (rebuildPDF file n) targetSizeBytes 0 0.75 (None, PosInf)
        in
        (case fst run of
           Inl f \<Rightarrow> (Inl f, Progress 10 # snd run)
         | Inr (b, sz, w) \<Rightarrow>
            (Inr \<lparr>out_blob = b, originalSize = bsize file, newSize = sz,
                  originalDimensions = \<lparr>width = targetWidth, height = targetHeight\<rparr>,
                  newDimensions = \<lparr>width = targetWidth, height = targetHeight\<rparr>,
                  warning = w, alreadyOptimal = False, pageCount = n, pageNum = 1,
                  out_size = sz\<rparr>,
             Progress 10 # snd run)))"

section \<open>Pages of a document as images\<close>

text \<open>
  The dimension block of \<^verbatim>\<open>extractAndProcessPages\<close> (from \<^verbatim>\<open>originalPixels\<close> to the
  rounding of \<^verbatim>\<open>optimalWidth\<close> and \<^verbatim>\<open>optimalHeight\<close>), as a function of the page's
  width and height, the estimated full size, the target and the preset's bounds.
\<close>

definition optimalPageDimensions ::
  "real \<Rightarrow> real \<Rightarrow> real \<Rightarrow> real \<Rightarrow> real \<Rightarrow> real \<Rightarrow> dims" where
  "optimalPageDimensions w h estimatedFullSize targetSizeBytes maxW maxH =
    (let originalPixels = w * h;
         targetPixels = Math_floor (js_div (Fin (originalPixels * targetSizeBytes))
                                           (Fin (estimatedFullSize * 1.15)));
         imgRatio = js_div (Fin w) (Fin h);
         optimalWidth = Math_sqrt (js_div targetPixels imgRatio);
         optimalHeight = js_div optimalWidth imgRatio;
         (optimalWidth, optimalHeight) =
           (if js_gt optimalWidth (Fin maxW)
            then (Fin maxW, js_div (Fin maxW) imgRatio)
            else (optimalWidth, optimalHeight));
         (optimalWidth, optimalHeight) =
           (if js_gt optimalHeight (Fin maxH)
            then (js_mul (Fin maxH) imgRatio, Fin maxH)
            else (optimalWidth, optimalHeight));
         minDim = Fin 150;
         (optimalWidth, optimalHeight) =
           (if js_lt optimalWidth minDim \<or> js_lt optimalHeight minDim
            then let scale = Math_max (js_div minDim optimalWidth)
                                      (js_div minDim optimalHeight)
                 in (js_mul optimalWidth scale, js_mul optimalHeight scale)
            else (optimalWidth, optimalHeight))
     in \<lparr>width = Math_round optimalWidth, height = Math_round optimalHeight\<rparr>)"

text \<open>
  One pass of the per-page \<^verbatim>\<open>while\<close> loop after its encode: it leaves the loop
  (\<^verbatim>\<open>break\<close>) or goes round again (\<^verbatim>\<open>continue\<close>), with the variables updated.
\<close>

datatype page_step = Break search_state | Continue search_state

definition onPageBlob :: "real \<Rightarrow> search_state \<Rightarrow> blob \<Rightarrow> page_step" where
  "onPageBlob targetSizeBytes st resultBlob =
    (let minTargetBytes = targetSizeBytes * 0.85 in
     if bsize resultBlob \<le> targetSizeBytes \<and> bsize resultBlob \<ge> minTargetBytes then
       Break (st\<lparr>bestBlob := Some resultBlob, bestSize := Fin (bsize resultBlob),
                  bestQuality := quality st\<rparr>)
     else
       let st1 = (if bsize resultBlob \<le> targetSizeBytes \<and>
                     js_lt (Fin (bsize resultBlob)) (bestSize st)
                  then st\<lparr>bestBlob := Some resultBlob, bestSize := Fin (bsize resultBlob),
                          bestQuality := quality st\<rparr>
                  else st)
       in
       if iteration st = 0 \<and> bsize resultBlob < minTargetBytes * 0.5 then Break st1
       else if bsize resultBlob > targetSizeBytes then
         if quality st \<le> minQuality then Break st1
         else
           let reduction = (if bsize resultBlob > targetSizeBytes * 2 then 0.15 else 0.08) in
           Continue (st1\<lparr>quality := max minQuality (quality st - reduction),
                         iteration := iteration st + 1\<rparr>)
       else if bsize resultBlob < minTargetBytes \<and> quality st < 0.98 then
         Continue (st1\<lparr>quality := min 0.98 (quality st + 0.05),
                       iteration := iteration st + 1\<rparr>)
       else Break st1)"

lemma onPageBlob_Continue_iteration:
  "onPageBlob t st b = Continue st' \<Longrightarrow> iteration st' = Suc (iteration st)"
  by (auto simp: onPageBlob_def Let_def split: if_splits)

text \<open>
  The \<^verbatim>\<open>while\<close> loop.  It yields the last \<^verbatim>\<open>resultBlob\<close> and the variables; a
  \<^verbatim>\<open>null\<close> blob makes \<^verbatim>\<open>resultBlob.size\<close> throw and the call rejects.
\<close>

function pageLoop ::
  "(canvas \<Rightarrow> string \<Rightarrow> real \<Rightarrow> blob option) \<Rightarrow> canvas \<Rightarrow> string \<Rightarrow> real \<Rightarrow>
   blob option \<Rightarrow> search_state \<Rightarrow> (failure + blob option \<times> search_state) \<times> event list" where
  "pageLoop toBlob resizedCanvas fmt targetSizeBytes resultBlob st =
    (if iteration st < maxIterations then
       let ev = [Encode resizedCanvas fmt (quality st)] in
       (case toBlob resizedCanvas fmt (quality st) of
          None \<Rightarrow> (Inl Rejected, ev)
        | Some b \<Rightarrow>
            (case onPageBlob targetSizeBytes st b of
               Break st' \<Rightarrow> (Inr (Some b, st'), ev)
             | Continue st' \<Rightarrow>
                 prepend ev (pageLoop toBlob resizedCanvas fmt targetSizeBytes (Some b) st')))
     else (Inr (resultBlob, st), []))"
  by pat_completeness auto
termination
  by (relation "measure (\<lambda>(toBlob, resizedCanvas, fmt, targetSizeBytes, resultBlob, st).
        maxIterations - iteration st)")
     (auto dest: onPageBlob_Continue_iteration)

text \<open>
  The quality search of one page: the loop from the initial variables, then
  \<^verbatim>\<open>if (bestBlob) resultBlob = bestBlob\<close>.
\<close>

definition pageSearch ::
  "(canvas \<Rightarrow> string \<Rightarrow> real \<Rightarrow> blob option) \<Rightarrow> canvas \<Rightarrow> string \<Rightarrow> real \<Rightarrow>
   (failure + blob option) \<times> event list" where
  "pageSearch toBlob resizedCanvas fmt targetSizeBytes =
    (let run = pageLoop toBlob resizedCanvas fmt targetSizeBytes None
                 \<lparr>quality = startQuality, iteration = 0, bestBlob = None, bestSize = PosInf,
                  bestQuality = startQuality\<rparr>
     in (case fst run of
           Inl f \<Rightarrow> Inl f
         | Inr (resultBlob, st) \<Rightarrow>
             Inr (case bestBlob st of Some b \<Rightarrow> Some b | None \<Rightarrow> resultBlob),
         snd run))"

text \<open>
  The body of the page loop of \<^verbatim>\<open>extractAndProcessPages\<close> for one page.
  \<open>renderPageToCanvas\<close> yields the viewport of the page at the scale (no value when the
  page cannot be rendered); \<open>wrapPDF\<close> stands for embedding the image in a new
  one-page document of the preset's size and saving it.
\<close>

definition processPage ::
  "(blob \<Rightarrow> int \<Rightarrow> real \<Rightarrow> (real \<times> real) option) \<Rightarrow>
   (canvas \<Rightarrow> string \<Rightarrow> real \<Rightarrow> blob option) \<Rightarrow> (blob \<Rightarrow> real \<Rightarrow> real \<Rightarrow> failure + blob) \<Rightarrow>
   blob \<Rightarrow> preset \<Rightarrow> nat \<Rightarrow> int \<Rightarrow> (failure + page_outcome) \<times> event list" where
  "processPage renderPageToCanvas toBlob wrapPDF file preset n pageNo =
    (let targetSizeBytes = maxSizeKB preset * 1024;
         renderScale = max 2.0 (widthPx preset / 400)
     in
     case renderPageToCanvas file pageNo renderScale of
       None \<Rightarrow> (Inl Rejected, [Render pageNo renderScale])
     | Some (vw, vh) \<Rightarrow>
        let w = real_of_int \<lfloor>vw\<rfloor>;
            h = real_of_int \<lfloor>vh\<rfloor>;
            originalDimensions = \<lparr>width = Fin w, height = Fin h\<rparr>;
            page = PageSurface file pageNo renderScale;
            testScale = 0.15;
            testWidth = max 80 \<lfloor>w * testScale\<rfloor>;
            testHeight = max 80 \<lfloor>h * testScale\<rfloor>;
            testCanvas = \<lparr>c_surface = page, c_fit = Stretch,
                           c_width = Fin (of_int testWidth),
                           c_height = Fin (of_int testHeight)\<rparr>;
            ev1 = [Render pageNo renderScale, Draw testCanvas,
                   Encode testCanvas (format preset) 0.75]
        in
        (case toBlob testCanvas (format preset) 0.75 of
           None \<Rightarrow> (Inl Rejected, ev1)
         | Some testBlob \<Rightarrow>
            let estimatedFullSize = bsize testBlob / (testScale * testScale);
                optimal = optimalPageDimensions w h estimatedFullSize targetSizeBytes
                            (widthPx preset) (heightPx preset);
                resizedCanvas = \<lparr>c_surface = page, c_fit = Stretch,
                                  c_width = width optimal, c_height = height optimal\<rparr>;
                search = pageSearch toBlob resizedCanvas (format preset) targetSizeBytes;
                ev2 = ev1 @ [Draw resizedCanvas] @ snd search
            in
            (case fst search of
               Inl f \<Rightarrow> (Inl f, ev2)
             | Inr None \<Rightarrow> (Inl Rejected, ev2)
             | Inr (Some found) \<Rightarrow>
                (case (if format preset = ''application/pdf''
                       then wrapPDF found (widthPx preset) (heightPx preset)
                       else Inr found) of
                   Inl f \<Rightarrow> (Inl f, ev2)
                 | Inr resultBlob \<Rightarrow>
                    (Inr \<lparr>out_blob = Some resultBlob, originalSize = bsize file,
                          newSize = Fin (bsize resultBlob),
                          originalDimensions = originalDimensions,
                          newDimensions = \<lparr>width = width optimal, height = height optimal\<rparr>,
                          warning = bsize resultBlob > targetSizeBytes,
                          alreadyOptimal = False, pageCount = n, pageNum = pageNo\<rparr>,
                     ev2)))))"

datatype pageSpec = AllPages | PageNumber int

text \<open>
  The \<^verbatim>\<open>for\<close> loop over \<^verbatim>\<open>pagesToProcess\<close>, from index \<open>idx\<close>: each page is announced
  to the progress callback and processed; a page that fails ends the call.
\<close>

fun pagesFrom ::
  "(int \<Rightarrow> (failure + page_outcome) \<times> event list) \<Rightarrow> nat \<Rightarrow> nat \<Rightarrow> int list \<Rightarrow>
   (failure + page_outcome list) \<times> event list" where
  "pagesFrom body len idx [] = (Inr [], [])"
| "pagesFrom body len idx (pageNo # rest) =
    (let progressPerFile = 70 / real len;
         ev = Progress (20 + round_half_up (real idx * progressPerFile)) # snd (body pageNo)
     in
     case fst (body pageNo) of
       Inl f \<Rightarrow> (Inl f, ev)
     | Inr out \<Rightarrow>
        (case fst (pagesFrom body len (idx + 1) rest) of
           Inl f \<Rightarrow> (Inl f, ev @ snd (pagesFrom body len (idx + 1) rest))
         | Inr outs \<Rightarrow> (Inr (out # outs), ev @ snd (pagesFrom body len (idx + 1) rest))))"

definition extractAndProcessPages ::
  "(blob \<Rightarrow> nat option) \<Rightarrow> (blob \<Rightarrow> int \<Rightarrow> real \<Rightarrow> (real \<times> real) option) \<Rightarrow>
   (canvas \<Rightarrow> string \<Rightarrow> real \<Rightarrow> blob option) \<Rightarrow> (blob \<Rightarrow> real \<Rightarrow> real \<Rightarrow> failure + blob) \<Rightarrow>
   blob \<Rightarrow> pageSpec \<Rightarrow> preset \<Rightarrow> (failure + page_outcome list) \<times> event list" where
  "extractAndProcessPages getPageCount renderPageToCanvas toBlob wrapPDF file spec preset =
    (case getPageCount file of
       None \<Rightarrow> (Inl Rejected, [Progress 10])
     | Some n \<Rightarrow>
        let pagesToProcess = (case spec of
                                AllPages \<Rightarrow> map int [1..<Suc n]
                              | PageNumber p \<Rightarrow> [p]);
            run = pagesFrom (processPage renderPageToCanvas toBlob wrapPDF file preset n)
                    (length pagesToProcess) 0 pagesToProcess
        in
        (case fst run of
           Inl f \<Rightarrow> (Inl f, Progress 10 # snd run)
         | Inr results \<Rightarrow> (Inr results, Progress 10 # snd run @ [Progress 100])))"

section \<open>Observations of a run\<close>

text \<open>
  The progress values delivered in a run, the number of its encodes, and the canvases
  made by \<^verbatim>\<open>resizeToExact\<close> (each of them is followed by one quality search).
\<close>

fun progressValues :: "event list \<Rightarrow> int list" where
  "progressValues [] = []"
| "progressValues (Progress p # ev) = p # progressValues ev"
| "progressValues (e # ev) = progressValues ev"

fun encodeCount :: "event list \<Rightarrow> nat" where
  "encodeCount [] = 0"
| "encodeCount (Encode c f q # ev) = Suc (encodeCount ev)"
| "encodeCount (e # ev) = encodeCount ev"

fun resizes :: "event list \<Rightarrow> canvas list" where
  "resizes [] = []"
| "resizes (Draw c # ev) = (if c_fit c = Letterbox then c # resizes ev else resizes ev)"
| "resizes (e # ev) = resizes ev"

text \<open>
  The events of a page that follow the drawing of its resized canvas, which is the
  second canvas drawn for the page (the first one is the test thumbnail): they are the
  encodes of the page's quality search.
\<close>

fun afterDraw :: "event list \<Rightarrow> event list" where
  "afterDraw [] = []"
| "afterDraw (Draw c # ev) = ev"
| "afterDraw (e # ev) = afterDraw ev"

definition searchEncodes :: "event list \<Rightarrow> event list" where
  "searchEncodes ev = afterDraw (afterDraw ev)"

text \<open>The size that the quality search of \<^verbatim>\<open>processImage\<close> reports for a canvas.\<close>

definition searchSize ::
  "(canvas \<Rightarrow> string \<Rightarrow> real \<Rightarrow> blob option) \<Rightarrow> preset \<Rightarrow> canvas \<Rightarrow> jsnum" where
  "searchSize toBlob preset c =
    (case fst (compressImage toBlob c (format preset) (maxSizeKB preset)) of
       Inr r \<Rightarrow> r_size r
     | Inl f \<Rightarrow> NaN)"

text \<open>
  Whether a run of \<^verbatim>\<open>tryCompress\<close> ends in its first branch, the one taken when
  \<^verbatim>\<open>iteration >= maxIterations\<close> (the cap): the run goes round after each encode that
  neither resolves nor fails, and reaches the cap or not.
\<close>

function capReachedFrom ::
  "(canvas \<Rightarrow> string \<Rightarrow> real \<Rightarrow> blob option) \<Rightarrow> canvas \<Rightarrow> string \<Rightarrow> real \<Rightarrow>
   search_state \<Rightarrow> bool" where
  "capReachedFrom toBlob canvas fmt targetSizeBytes st =
    (if iteration st \<ge> maxIterations then True
     else
       (case toBlob canvas fmt (quality st) of
          None \<Rightarrow> False
        | Some blob \<Rightarrow>
            (case onBlob targetSizeBytes st blob of
               Resolve result \<Rightarrow> False
             | Again st' \<Rightarrow> capReachedFrom toBlob canvas fmt targetSizeBytes st')))"
  by pat_completeness auto
termination
  by (relation "measure (\<lambda>(toBlob, canvas, fmt, targetSizeBytes, st). maxIterations - iteration st)")
     (auto dest: onBlob_Again_iteration)

definition capReached ::
  "(canvas \<Rightarrow> string \<Rightarrow> real \<Rightarrow> blob option) \<Rightarrow> canvas \<Rightarrow> string \<Rightarrow> real \<Rightarrow> bool" where
  "capReached toBlob canvas fmt targetSizeKB =
     capReachedFrom toBlob canvas fmt (targetSizeKB * 1024)
       \<lparr>quality = startQuality, iteration = 0, bestBlob = None, bestSize = PosInf,
        bestQuality = startQuality\<rparr>"

text \<open>
  A search that has recorded no blob yet has seen only encodes over the target: each of
  them lowered the quality by at least 0.08, so the quality floor is reached within
  eight steps.
\<close>

definition unrecorded :: "search_state \<Rightarrow> bool" where
  "unrecorded st \<longleftrightarrow> bestBlob st = None \<and> bestSize st = PosInf \<and> iteration st \<le> 8 \<and>
     quality st \<le> max minQuality (startQuality - 0.08 * real (iteration st))"

text \<open>
  Progress values in order: non-decreasing, between a lower bound and 100, and with 100
  delivered exactly once, last, when the run is complete, and not at all otherwise.
\<close>

definition orderly :: "int \<Rightarrow> bool \<Rightarrow> int list \<Rightarrow> bool" where
  "orderly lo ok pv \<longleftrightarrow>
     sorted pv \<and> (\<forall>p \<in> set pv. lo \<le> p \<and> p \<le> 100) \<and>
     (if ok then pv \<noteq> [] \<and> last pv = 100 \<and> count_list pv 100 = 1 else 100 \<notin> set pv)"

section \<open>Sample inputs\<close>

text \<open>
  Capabilities and inputs on which the theorems below are instantiated.  \<open>filled n f\<close>
  is a blob of \<open>n\<close> bytes of type \<open>f\<close>.  The encoders: \<open>steady n\<close> yields \<open>n\<close> bytes for
  every canvas and quality; \<open>careful n\<close> does so for a canvas with at least one pixel
  and yields \<^verbatim>\<open>null\<close> otherwise, as a browser does; \<open>seesaw\<close> is over a 1 KB target
  from quality 0.9 on and under it below; \<open>flicker\<close> fits 1 KB at the start quality only;
  \<open>shrinking\<close> depends on the canvas.  The document rebuild \<open>stepped\<close> grows with the
  quality.
\<close>

definition filled :: "nat \<Rightarrow> string \<Rightarrow> blob" where
  "filled n f = \<lparr>bytes = replicate n 0, mime = f\<rparr>"

definition steady :: "nat \<Rightarrow> canvas \<Rightarrow> string \<Rightarrow> real \<Rightarrow> blob option" where
  "steady n c f q = Some (filled n f)"

definition drawable :: "canvas \<Rightarrow> bool" where
  "drawable c = (case (c_width c, c_height c) of
                   (Fin w, Fin h) \<Rightarrow> 1 \<le> w \<and> 1 \<le> h
                 | _ \<Rightarrow> False)"

definition careful :: "nat \<Rightarrow> canvas \<Rightarrow> string \<Rightarrow> real \<Rightarrow> blob option" where
  "careful n c f q = (if drawable c then Some (filled n f) else None)"

definition seesaw :: "canvas \<Rightarrow> string \<Rightarrow> real \<Rightarrow> blob option" where
  "seesaw c f q = Some (filled (if 0.9 \<le> q then 2000 else 600) f)"

definition flicker :: "canvas \<Rightarrow> string \<Rightarrow> real \<Rightarrow> blob option" where
  "flicker c f q = Some (filled (if q = 0.92 then 700 else 3000) f)"

definition shrinking :: "canvas \<Rightarrow> string \<Rightarrow> real \<Rightarrow> blob option" where
  "shrinking c f q =
     Some (filled (if c_fit c = Stretch then 2560 else if c_width c = Fin 200 then 4000 else 900) f)"

definition photo :: image where
  "photo = \<lparr>img_width = 1000, img_height = 800, pixels = []\<rparr>"

definition square :: image where
  "square = \<lparr>img_width = 1000, img_height = 1000, pixels = []\<rparr>"

definition boxed :: canvas where
  "boxed = resizeToExact photo (Fin 400) (Fin 320)"

definition decodes :: "blob \<Rightarrow> image option" where
  "decodes file = Some photo"

definition decodesSquare :: "blob \<Rightarrow> image option" where
  "decodesSquare file = Some square"

definition jpegUnder :: "real \<Rightarrow> preset" where
  "jpegUnder kb = \<lparr>maxSizeKB = kb, format = ''image/jpeg'', widthPx = 800, heightPx = 1067\<rparr>"

definition flatPreset :: preset where
  "flatPreset = \<lparr>maxSizeKB = 1, format = ''image/jpeg'', widthPx = 0, heightPx = - 5\<rparr>"

definition pdfUnder :: "real \<Rightarrow> preset" where
  "pdfUnder kb = \<lparr>maxSizeKB = kb, format = ''application/pdf'', widthPx = 800, heightPx = 1067\<rparr>"

definition undecodable :: "blob \<Rightarrow> image option" where
  "undecodable file = None"

definition stubborn :: "canvas \<Rightarrow> string \<Rightarrow> real \<Rightarrow> blob option" where
  "stubborn c f q =
     Some (filled (if c_fit c = Stretch then 2560 else if c_width c = Fin 200 then 4000 else 3500) f)"

definition threePages :: "blob \<Rightarrow> nat option" where
  "threePages file = Some 3"

definition stepped :: "blob \<Rightarrow> nat \<Rightarrow> real \<Rightarrow> failure + blob" where
  "stepped file n q =
     Inr (filled (if q < 0.62 then 700 else if q < 0.68 then 800 else if q < 0.72 then 1100 else 2000)
            ''application/pdf'')"

definition renders :: "blob \<Rightarrow> int \<Rightarrow> real \<Rightarrow> (real \<times> real) option" where
  "renders file p s = Some (595 * s, 842 * s)"

definition wraps :: "blob \<Rightarrow> real \<Rightarrow> real \<Rightarrow> failure + blob" where
  "wraps b w h = Inr \<lparr>bytes = bytes b, mime = ''application/pdf''\<rparr>"

definition padded :: "blob \<Rightarrow> real \<Rightarrow> real \<Rightarrow> failure + blob" where
  "padded b w h = Inr \<lparr>bytes = bytes b @ replicate 200 0, mime = ''application/pdf''\<rparr>"

text \<open>
  The test thumbnail and the resized canvas of page 1 of a 5000-byte document rendered by
  \<open>renders\<close> at scale 2 (1190 by 1684), for a test encode of 900 bytes, a target of 1 KB
  and bounds of 800 by 1067.
\<close>

definition thumbnailPage :: canvas where
  "thumbnailPage = \<lparr>c_surface = PageSurface (filled 5000 ''application/pdf'') 1 2,
     c_fit = Stretch, c_width = Fin 178, c_height = Fin 252\<rparr>"

definition plannedPage :: canvas where
  "plannedPage = \<lparr>c_surface = PageSurface (filled 5000 ''application/pdf'') 1 2,
     c_fit = Stretch,
     c_width = width (optimalPageDimensions 1190 1684 40000 1024 800 1067),
     c_height = height (optimalPageDimensions 1190 1684 40000 1024 800 1067)\<rparr>"

text \<open>The pair tracked by trackBest: nothing yet, or a blob and its size.\<close>

definition tracked :: "blob option \<times> jsnum \<Rightarrow> bool" where
  "tracked best \<longleftrightarrow>
     best = (None, PosInf) \<or> (\<exists>b. best = (Some b, Fin (bsize b)))"

definition fits :: "real \<Rightarrow> blob option \<times> jsnum \<Rightarrow> bool" where
  "fits t best \<longleftrightarrow> (\<exists>b. fst best = Some b \<and> bsize b \<le> t)"

section \<open>Basic facts\<close>

lemma fst_prepend [simp]: "fst (prepend ev r) = fst r"
  by (simp add: prepend_def)

lemma snd_prepend [simp]: "snd (prepend ev r) = ev @ snd r"
  by (simp add: prepend_def)

lemma bsize_nonneg: "0 \<le> bsize b"
  by (simp add: bsize_def)

lemma bsize_filled [simp]: "bsize (filled n f) = real n"
  by (simp add: filled_def bsize_def)

lemma js_gt_Fin [simp]: "js_gt (Fin a) (Fin b) = (b < a)"
  by (simp add: js_gt_def)

lemma Math_max_Fin [simp]: "Math_max (Fin a) (Fin b) = Fin (max a b)"
  by (simp add: max_def)

lemma Math_min_Fin [simp]: "Math_min (Fin a) (Fin b) = Fin (min a b)"
  by (simp add: min_def)

lemma mime_filled [simp]: "mime (filled n f) = f"
  by (simp add: filled_def)

lemma progressValues_append [simp]:
  "progressValues (a @ b) = progressValues a @ progressValues b"
  by (induction a rule: progressValues.induct) auto

lemma resizes_append [simp]: "resizes (a @ b) = resizes a @ resizes b"
  by (induction a rule: resizes.induct) auto

lemma resizes_silenced: "resizes ev = [] \<Longrightarrow> resizes (silenced ev) = []"
  by (induction ev rule: resizes.induct) (auto simp: silenced_def split: if_splits)


lemma sqrt_40000: "sqrt 40000 = 200"
  by (rule real_sqrt_unique) simp_all

declare tryCompress.simps [simp del]

declare capReachedFrom.simps [simp del]
declare pageLoop.simps [simp del]
declare attemptLoop.simps [simp del]

lemmas search_eval = compressImage_def tryCompress.simps onBlob_def Let_def prepend_def
  round_half_up_def js_or_def js_gt_def

lemmas page_search_eval = pageSearch_def pageLoop.simps onPageBlob_def Let_def prepend_def

lemmas image_eval = processImage_def decodes_def jpegUnder_def resizeToExact_def photo_def Let_def

section \<open>The quality search of \<^verbatim>\<open>compressImage\<close>\<close>

lemma tryCompress_cap:
  "maxIterations \<le> iteration st \<Longrightarrow> snd (tryCompress toBlob canvas fmt t st) = []"
  by (subst tryCompress.simps) simp

lemma tryCompress_step:
  assumes "iteration st < maxIterations"
  shows "tryCompress toBlob canvas fmt t st =
     (case toBlob canvas fmt (quality st) of
        None \<Rightarrow> (Inl NeverSettles,
                 [Encode canvas fmt (quality st), Progress (4 * int (iteration st))])
      | Some b \<Rightarrow>
         (case onBlob t st b of
            Resolve result \<Rightarrow>
              (Inr result, [Encode canvas fmt (quality st), Progress (4 * int (iteration st))])
          | Again st' \<Rightarrow>
              prepend [Encode canvas fmt (quality st), Progress (4 * int (iteration st))]
                (tryCompress toBlob canvas fmt t st')))"
proof -
  have "round_half_up (real (iteration st) / 25 * 100) = 4 * int (iteration st)"
    unfolding round_half_up_def by linarith
  with assms show ?thesis
    by (subst tryCompress.simps) (simp add: Let_def split: option.splits next_step.splits)
qed

lemma onBlob_in_band:
  "bsize b \<le> t \<Longrightarrow> t * 0.85 \<le> bsize b \<Longrightarrow>
   onBlob t st b = Resolve \<lparr>r_blob = Some b, r_size = Fin (bsize b), r_quality = quality st,
                            r_warning = False\<rparr>"
  by (simp add: onBlob_def)

lemma tryCompress_in_band:
  "Encode c f q \<in> set (snd (tryCompress toBlob canvas fmt t st)) \<Longrightarrow>
   toBlob c f q = Some b \<Longrightarrow> bsize b \<le> t \<Longrightarrow> t * 0.85 \<le> bsize b \<Longrightarrow>
   fst (tryCompress toBlob canvas fmt t st) =
     Inr \<lparr>r_blob = Some b, r_size = Fin (bsize b), r_quality = q, r_warning = False\<rparr> \<and>
   (\<exists>pre p. snd (tryCompress toBlob canvas fmt t st) = pre @ [Encode c f q, Progress p])"
proof (induction "maxIterations - iteration st" arbitrary: st rule: less_induct)
  case less
  show ?case
  proof (cases "iteration st < maxIterations")
    case False
    with less.prems(1) show ?thesis by (simp add: tryCompress_cap)
  next
    case True
    note step = tryCompress_step [OF True, of toBlob canvas fmt t]
    show ?thesis
    proof (cases "toBlob canvas fmt (quality st)")
      case None
      with less.prems step show ?thesis by auto
    next
      case (Some b')
      show ?thesis
      proof (cases "onBlob t st b'")
        case (Resolve result)
        with Some less.prems step have "c = canvas" "f = fmt" "q = quality st" by auto
        with Some less.prems have "onBlob t st b' = Resolve \<lparr>r_blob = Some b, r_size = Fin (bsize b),
            r_quality = q, r_warning = False\<rparr>" by (simp add: onBlob_in_band)
        with Some step \<open>c = canvas\<close> \<open>f = fmt\<close> \<open>q = quality st\<close> show ?thesis by auto
      next
        case (Again st')
        have it: "iteration st' = Suc (iteration st)"
          using Again by (rule onBlob_Again_iteration)
        have notnow: "\<not> (c = canvas \<and> f = fmt \<and> q = quality st)"
        proof
          assume "c = canvas \<and> f = fmt \<and> q = quality st"
          with Some less.prems have "onBlob t st b' = Resolve \<lparr>r_blob = Some b,
            r_size = Fin (bsize b), r_quality = quality st, r_warning = False\<rparr>"
            by (simp add: onBlob_in_band)
          with Again show False by simp
        qed
        with Some Again less.prems(1) step
        have "Encode c f q \<in> set (snd (tryCompress toBlob canvas fmt t st'))" by auto
        with it True less.prems(2-4)
        have "fst (tryCompress toBlob canvas fmt t st') =
            Inr \<lparr>r_blob = Some b, r_size = Fin (bsize b), r_quality = q, r_warning = False\<rparr> \<and>
          (\<exists>pre p. snd (tryCompress toBlob canvas fmt t st') = pre @ [Encode c f q, Progress p])"
          by (intro less.hyps) auto
        with Some Again step show ?thesis by auto
      qed
    qed
  qed
qed

lemma onBlob_over:
  assumes "t < bsize b" and "unrecorded st"
  shows "onBlob t st b =
    (if quality st \<le> minQuality
     then Resolve \<lparr>r_blob = Some b, r_size = PosInf,
                   r_quality = (if bestQuality st = 0 then quality st else bestQuality st),
                   r_warning = True\<rparr>
     else Again (st\<lparr>quality := max minQuality
                        (quality st - (if bsize b > t * 2 then 0.15 else 0.08)),
                     iteration := iteration st + 1\<rparr>))"
proof -
  from assms bsize_nonneg [of b] have "\<not> bsize b < t * 0.85 * 0.5" by simp
  with assms show ?thesis
    by (simp add: onBlob_def unrecorded_def js_or_def Let_def)
qed

lemma onBlob_over_unrecorded:
  assumes "t < bsize b" and "unrecorded st" and "onBlob t st b = Again st'"
  shows "unrecorded st' \<and> bestQuality st' = bestQuality st"
proof -
  define red :: real where "red = (if bsize b > t * 2 then 0.15 else 0.08)"
  have red: "0.08 \<le> red" by (simp add: red_def)
  from assms have q: "\<not> quality st \<le> minQuality"
    and st': "st' = st\<lparr>quality := max minQuality (quality st - red),
                     iteration := iteration st + 1\<rparr>"
    by (auto simp: onBlob_over red_def split: if_splits)
  from assms(2) q have le: "quality st \<le> startQuality - 0.08 * real (iteration st)"
    by (auto simp: unrecorded_def max_def split: if_splits)
  with q have "real (iteration st) < 8" by simp
  then have it: "iteration st \<le> 7" by simp
  from le red have "quality st - red \<le> startQuality - 0.08 * real (Suc (iteration st))"
    by (simp add: field_simps)
  then have "max minQuality (quality st - red)
      \<le> max minQuality (startQuality - 0.08 * real (Suc (iteration st)))"
    by (rule max.mono [OF order_refl])
  with assms(2) it show ?thesis
    unfolding st' unrecorded_def by simp
qed

lemma onBlob_Resolve_blob: "onBlob t st b = Resolve r \<Longrightarrow> r_blob r \<noteq> None"
  by (auto simp: onBlob_def Let_def split: if_splits)

lemma onBlob_Again_recorded:
  assumes "onBlob t st b = Again st'" and "bestBlob st = None \<longrightarrow> unrecorded st"
  shows "bestBlob st' = None \<longrightarrow> unrecorded st'"
proof (cases "t < bsize b")
  case True
  show ?thesis
  proof (cases "bestBlob st")
    case None
    with assms True show ?thesis by (auto dest: onBlob_over_unrecorded)
  next
    case (Some a)
    with assms(1) show ?thesis by (auto simp: onBlob_def Let_def split: if_splits)
  qed
next
  case False
  show ?thesis
  proof (cases "bestBlob st")
    case None
    with assms(2) have "bestSize st = PosInf" by (simp add: unrecorded_def)
    with assms(1) False show ?thesis by (auto simp: onBlob_def Let_def split: if_splits)
  next
    case (Some a)
    with assms(1) show ?thesis by (auto simp: onBlob_def Let_def split: if_splits)
  qed
qed

lemma tryCompress_blob:
  "bestBlob st = None \<longrightarrow> unrecorded st \<Longrightarrow>
   fst (tryCompress toBlob canvas fmt t st) = Inr r \<Longrightarrow> r_blob r \<noteq> None"
proof (induction "maxIterations - iteration st" arbitrary: st rule: less_induct)
  case less
  show ?case
  proof (cases "iteration st < maxIterations")
    case False
    with less.prems show ?thesis
      by (subst (asm) tryCompress.simps) (auto simp: unrecorded_def split: option.splits)
  next
    case True
    note step = tryCompress_step [OF True, of toBlob canvas fmt t]
    show ?thesis
    proof (cases "toBlob canvas fmt (quality st)")
      case None
      with less.prems step show ?thesis by auto
    next
      case (Some b)
      show ?thesis
      proof (cases "onBlob t st b")
        case (Resolve result)
        with Some step less.prems(2) have "r = result" by simp
        with Resolve show ?thesis by (auto dest: onBlob_Resolve_blob)
      next
        case (Again st')
        have "iteration st' = Suc (iteration st)"
          using Again by (rule onBlob_Again_iteration)
        moreover have "bestBlob st' = None \<longrightarrow> unrecorded st'"
          using Again less.prems(1) by (rule onBlob_Again_recorded)
        moreover have "fst (tryCompress toBlob canvas fmt t st') = Inr r"
          using Some Again step less.prems(2) by simp
        ultimately show ?thesis using True by (intro less.hyps) auto
      qed
    qed
  qed
qed

lemma tryCompress_all_over:
  assumes "unrecorded st"
    and "fst (tryCompress toBlob canvas fmt t st) = Inr r"
    and "\<forall>e \<in> set (snd (tryCompress toBlob canvas fmt t st)).
           \<forall>c f q b. e = Encode c f q \<longrightarrow> toBlob c f q = Some b \<longrightarrow> t < bsize b"
  shows "\<exists>pre q p b. snd (tryCompress toBlob canvas fmt t st) = pre @ [Encode canvas fmt q, Progress p] \<and>
           toBlob canvas fmt q = Some b \<and> q \<le> minQuality \<and>
           r = \<lparr>r_blob = Some b, r_size = PosInf,
                r_quality = (if bestQuality st = 0 then q else bestQuality st),
                r_warning = True\<rparr>"
  using assms
proof (induction "maxIterations - iteration st" arbitrary: st rule: less_induct)
  case less
  from less.prems(1) have True: "iteration st < maxIterations"
    by (simp add: unrecorded_def)
  note step = tryCompress_step [OF True, of toBlob canvas fmt t]
  show ?case
  proof (cases "toBlob canvas fmt (quality st)")
    case None
    with less.prems step show ?thesis by auto
  next
    case (Some b)
    with less.prems(3) step have over: "t < bsize b"
      by (auto split: next_step.splits)
    show ?thesis
    proof (cases "onBlob t st b")
      case (Resolve result)
      with over less.prems(1) have "quality st \<le> minQuality" and
        "result = \<lparr>r_blob = Some b, r_size = PosInf,
                   r_quality = (if bestQuality st = 0 then quality st else bestQuality st),
                   r_warning = True\<rparr>"
        by (auto simp: onBlob_over split: if_splits)
      with Some Resolve step less.prems(2) show ?thesis by auto
    next
      case (Again st')
      have it: "iteration st' = Suc (iteration st)"
        using Again by (rule onBlob_Again_iteration)
      have un: "unrecorded st' \<and> bestQuality st' = bestQuality st"
        using over less.prems(1) Again by (rule onBlob_over_unrecorded)
      have res: "fst (tryCompress toBlob canvas fmt t st') = Inr r"
        using Some Again step less.prems(2) by simp
      have sub: "\<forall>e \<in> set (snd (tryCompress toBlob canvas fmt t st')).
           \<forall>c f q b. e = Encode c f q \<longrightarrow> toBlob c f q = Some b \<longrightarrow> t < bsize b"
        using Some Again step less.prems(3) by auto
      have "\<exists>pre q p b. snd (tryCompress toBlob canvas fmt t st') =
              pre @ [Encode canvas fmt q, Progress p] \<and>
           toBlob canvas fmt q = Some b \<and> q \<le> minQuality \<and>
           r = \<lparr>r_blob = Some b, r_size = PosInf,
                r_quality = (if bestQuality st' = 0 then q else bestQuality st'),
                r_warning = True\<rparr>"
        using it True un res sub by (intro less.hyps) auto
      then obtain pre q p b' where
        "snd (tryCompress toBlob canvas fmt t st') = pre @ [Encode canvas fmt q, Progress p]"
        "toBlob canvas fmt q = Some b'" "q \<le> minQuality"
        "r = \<lparr>r_blob = Some b', r_size = PosInf,
                r_quality = (if bestQuality st' = 0 then q else bestQuality st'),
                r_warning = True\<rparr>" by blast
      with un Some Again step show ?thesis
        by (intro exI [of _ "[Encode canvas fmt (quality st), Progress (4 * int (iteration st))] @ pre"]
                  exI [of _ q] exI [of _ p] exI [of _ b']) simp
    qed
  qed
qed

text \<open>
  A search in which every encode is over the target makes at most nine encodes, and a
  search in which some encode fits the target resolves with an encode of the run that
  fits it.
\<close>

lemma tryCompress_over_count:
  assumes "unrecorded st"
    and "fst (tryCompress toBlob canvas fmt t st) = Inr r"
    and "\<forall>e \<in> set (snd (tryCompress toBlob canvas fmt t st)).
           \<forall>c f q b. e = Encode c f q \<longrightarrow> toBlob c f q = Some b \<longrightarrow> t < bsize b"
  shows "encodeCount (snd (tryCompress toBlob canvas fmt t st)) + iteration st \<le> 9"
  using assms
proof (induction "maxIterations - iteration st" arbitrary: st rule: less_induct)
  case less
  from less.prems(1) have it8: "iteration st \<le> 8" by (simp add: unrecorded_def)
  then have True: "iteration st < maxIterations" by simp
  note step = tryCompress_step [OF True, of toBlob canvas fmt t]
  show ?case
  proof (cases "toBlob canvas fmt (quality st)")
    case None
    with less.prems step show ?thesis by auto
  next
    case (Some b)
    with less.prems(3) step have over: "t < bsize b"
      by (auto split: next_step.splits)
    show ?thesis
    proof (cases "onBlob t st b")
      case (Resolve result)
      with Some step it8 show ?thesis by simp
    next
      case (Again st')
      have it: "iteration st' = Suc (iteration st)"
        using Again by (rule onBlob_Again_iteration)
      have un: "unrecorded st'"
        using onBlob_over_unrecorded [OF over less.prems(1) Again] by simp
      have res: "fst (tryCompress toBlob canvas fmt t st') = Inr r"
        using Some Again step less.prems(2) by simp
      have sub: "\<forall>e \<in> set (snd (tryCompress toBlob canvas fmt t st')).
           \<forall>c f q b. e = Encode c f q \<longrightarrow> toBlob c f q = Some b \<longrightarrow> t < bsize b"
        using Some Again step less.prems(3) by auto
      have "encodeCount (snd (tryCompress toBlob canvas fmt t st')) + iteration st' \<le> 9"
        using it True un res sub by (intro less.hyps) auto
      with it Some Again step show ?thesis by simp
    qed
  qed
qed

lemma onBlob_Resolve_fits:
  assumes "onBlob t st b = Resolve r"
    and "\<forall>x. bestBlob st = Some x \<longrightarrow> bsize x \<le> t"
    and "bestBlob st \<noteq> None \<or> bsize b \<le> t"
  shows "\<exists>b'. r_blob r = Some b' \<and> bsize b' \<le> t \<and> (b' = b \<or> bestBlob st = Some b')"
proof -
  have "bsize b < t * 0.85 * 0.5 \<Longrightarrow> bsize b \<le> t"
    using bsize_nonneg [of b] by simp
  with assms show ?thesis
    by (auto simp: onBlob_def Let_def split: if_splits)
qed

lemma onBlob_Again_best:
  assumes "onBlob t st b = Again st'"
  shows "(bestBlob st' = bestBlob st \<or> (bestBlob st' = Some b \<and> bsize b \<le> t))"
    and "bestBlob st \<noteq> None \<Longrightarrow> bestBlob st' \<noteq> None"
    and "bsize b \<le> t \<Longrightarrow> bestSize st = PosInf \<Longrightarrow> bestBlob st' \<noteq> None"
  using assms by (auto simp: onBlob_def Let_def split: if_splits)

lemma tryCompress_fits:
  assumes "bestBlob st = None \<longrightarrow> unrecorded st"
    and "\<forall>x. bestBlob st = Some x \<longrightarrow> bsize x \<le> t \<and> P x"
    and "fst (tryCompress toBlob canvas fmt t st) = Inr r"
    and "bestBlob st \<noteq> None \<or>
         (\<exists>c f q b. Encode c f q \<in> set (snd (tryCompress toBlob canvas fmt t st)) \<and>
                    toBlob c f q = Some b \<and> bsize b \<le> t)"
  shows "\<exists>b. r_blob r = Some b \<and> bsize b \<le> t \<and>
           (P b \<or> (\<exists>q. toBlob canvas fmt q = Some b \<and>
                        Encode canvas fmt q \<in> set (snd (tryCompress toBlob canvas fmt t st))))"
  using assms
proof (induction "maxIterations - iteration st" arbitrary: st P rule: less_induct)
  case less
  show ?case
  proof (cases "iteration st < maxIterations")
    case False
    with less.prems show ?thesis
      by (subst (asm) (1 2) tryCompress.simps, subst tryCompress.simps)
         (auto split: option.splits)
  next
    case True
    note step = tryCompress_step [OF True, of toBlob canvas fmt t]
    show ?thesis
    proof (cases "toBlob canvas fmt (quality st)")
      case None
      with less.prems step show ?thesis by auto
    next
      case (Some b)
      show ?thesis
      proof (cases "onBlob t st b")
        case (Resolve result)
        with Some step less.prems(3) have r: "r = result" by simp
        from Some Resolve step less.prems(4) have "bestBlob st \<noteq> None \<or> bsize b \<le> t"
          by auto
        with onBlob_Resolve_fits [OF Resolve] less.prems(2) r
        obtain b' where "r_blob r = Some b'" "bsize b' \<le> t" "b' = b \<or> bestBlob st = Some b'"
          by blast
        with Some Resolve step less.prems(2) show ?thesis by auto
      next
        case (Again st')
        let ?next = "tryCompress toBlob canvas fmt t st'"
        have it: "iteration st' = Suc (iteration st)"
          using Again by (rule onBlob_Again_iteration)
        have inv1: "bestBlob st' = None \<longrightarrow> unrecorded st'"
          using Again less.prems(1) by (rule onBlob_Again_recorded)
        have inv2: "\<forall>x. bestBlob st' = Some x \<longrightarrow> bsize x \<le> t \<and> (P x \<or> x = b)"
          using onBlob_Again_best(1) [OF Again] less.prems(2) by auto
        have res: "fst ?next = Inr r"
          using Some Again step less.prems(3) by simp
        have ev: "snd (tryCompress toBlob canvas fmt t st) =
            [Encode canvas fmt (quality st), Progress (4 * int (iteration st))] @ snd ?next"
          using Some Again step by simp
        have some: "bestBlob st' \<noteq> None \<or>
            (\<exists>c f q b. Encode c f q \<in> set (snd ?next) \<and> toBlob c f q = Some b \<and> bsize b \<le> t)"
        proof (cases "bestBlob st")
          case (Some a)
          with onBlob_Again_best(2) [OF Again] show ?thesis by simp
        next
          case None
          with less.prems(1) have inf: "bestSize st = PosInf" by (simp add: unrecorded_def)
          from None less.prems(4) obtain c f q b0 where
            e: "Encode c f q \<in> set (snd (tryCompress toBlob canvas fmt t st))"
            and b0: "toBlob c f q = Some b0" "bsize b0 \<le> t" by blast
          show ?thesis
          proof (cases "Encode c f q \<in> set (snd ?next)")
            case True
            with b0 show ?thesis by blast
          next
            case False
            with e ev have "c = canvas" "f = fmt" "q = quality st" by auto
            with b0 \<open>toBlob canvas fmt (quality st) = Some b\<close> have "bsize b \<le> t" by simp
            from onBlob_Again_best(3) [OF Again this inf] show ?thesis by simp
          qed
        qed
        have "\<exists>x. r_blob r = Some x \<and> bsize x \<le> t \<and>
           ((P x \<or> x = b) \<or> (\<exists>q. toBlob canvas fmt q = Some x \<and>
                        Encode canvas fmt q \<in> set (snd ?next)))"
          using it True inv1 inv2 res some by (intro less.hyps) auto
        then obtain x where x: "r_blob r = Some x" "bsize x \<le> t"
          "(P x \<or> x = b) \<or> (\<exists>q. toBlob canvas fmt q = Some x \<and>
                        Encode canvas fmt q \<in> set (snd ?next))" by blast
        with Some ev show ?thesis by auto
      qed
    qed
  qed
qed

text \<open>A run that reaches the cap has made 25 encodes.\<close>

lemma capReachedFrom_count:
  "iteration st \<le> maxIterations \<Longrightarrow> capReachedFrom toBlob canvas fmt t st \<Longrightarrow>
   encodeCount (snd (tryCompress toBlob canvas fmt t st)) + iteration st = maxIterations"
proof (induction "maxIterations - iteration st" arbitrary: st rule: less_induct)
  case less
  show ?case
  proof (cases "iteration st < maxIterations")
    case False
    with less.prems(1) show ?thesis by (simp add: tryCompress_cap)
  next
    case True
    note step = tryCompress_step [OF True, of toBlob canvas fmt t]
    from True less.prems(2) obtain b st' where b: "toBlob canvas fmt (quality st) = Some b"
      and again: "onBlob t st b = Again st'"
      and rest: "capReachedFrom toBlob canvas fmt t st'"
      by (subst (asm) capReachedFrom.simps) (auto split: option.splits next_step.splits)
    have it: "iteration st' = Suc (iteration st)"
      using again by (rule onBlob_Again_iteration)
    with True rest
    have "encodeCount (snd (tryCompress toBlob canvas fmt t st')) + iteration st' = maxIterations"
      by (intro less.hyps) auto
    with it b again step show ?thesis by simp
  qed
qed

lemma initial_unrecorded:
  "unrecorded \<lparr>quality = startQuality, iteration = 0, bestBlob = None, bestSize = PosInf,
               bestQuality = startQuality\<rparr>"
  by (simp add: unrecorded_def)

section \<open>The quality search of a page\<close>

lemma pageLoop_cap:
  "maxIterations \<le> iteration st \<Longrightarrow> snd (pageLoop toBlob canvas fmt t rb st) = []"
  by (subst pageLoop.simps) simp

lemma onPageBlob_in_band:
  "bsize b \<le> t \<Longrightarrow> t * 0.85 \<le> bsize b \<Longrightarrow>
   onPageBlob t st b = Break (st\<lparr>bestBlob := Some b, bestSize := Fin (bsize b),
                                bestQuality := quality st\<rparr>)"
  by (simp add: onPageBlob_def)

lemma pageLoop_in_band:
  "Encode c f q \<in> set (snd (pageLoop toBlob canvas fmt t rb st)) \<Longrightarrow>
   toBlob c f q = Some b \<Longrightarrow> bsize b \<le> t \<Longrightarrow> t * 0.85 \<le> bsize b \<Longrightarrow>
   (\<exists>st'. fst (pageLoop toBlob canvas fmt t rb st) = Inr (Some b, st') \<and> bestBlob st' = Some b) \<and>
   (\<exists>pre. snd (pageLoop toBlob canvas fmt t rb st) = pre @ [Encode c f q])"
proof (induction "maxIterations - iteration st" arbitrary: st rb rule: less_induct)
  case less
  show ?case
  proof (cases "iteration st < maxIterations")
    case False
    with less.prems(1) show ?thesis by (simp add: pageLoop_cap)
  next
    case True
    show ?thesis
    proof (cases "toBlob canvas fmt (quality st)")
      case None
      with True less.prems show ?thesis
        by (subst (asm) pageLoop.simps) auto
    next
      case (Some b')
      show ?thesis
      proof (cases "onPageBlob t st b'")
        case (Break st')
        with True Some less.prems(1) have "c = canvas" "f = fmt" "q = quality st"
          by (subst (asm) pageLoop.simps, simp)+
        with Some less.prems Break have "b' = b" "st' = st\<lparr>bestBlob := Some b,
            bestSize := Fin (bsize b), bestQuality := quality st\<rparr>"
          by (simp_all add: onPageBlob_in_band)
        with True Some Break \<open>c = canvas\<close> \<open>f = fmt\<close> \<open>q = quality st\<close> show ?thesis
          by (subst (1 2) pageLoop.simps) simp
      next
        case (Continue st')
        have it: "iteration st' = Suc (iteration st)"
          using Continue by (rule onPageBlob_Continue_iteration)
        have unf: "pageLoop toBlob canvas fmt t rb st =
            prepend [Encode canvas fmt (quality st)] (pageLoop toBlob canvas fmt t (Some b') st')"
          using True Some Continue by (subst pageLoop.simps) simp
        have notnow: "\<not> (c = canvas \<and> f = fmt \<and> q = quality st)"
        proof
          assume "c = canvas \<and> f = fmt \<and> q = quality st"
          with Some less.prems Continue show False
            by (simp add: onPageBlob_in_band)
        qed
        with less.prems(1) unf
        have "Encode c f q \<in> set (snd (pageLoop toBlob canvas fmt t (Some b') st'))" by auto
        with it True less.prems(2-4)
        have "(\<exists>st''. fst (pageLoop toBlob canvas fmt t (Some b') st') = Inr (Some b, st'') \<and>
                 bestBlob st'' = Some b) \<and>
          (\<exists>pre. snd (pageLoop toBlob canvas fmt t (Some b') st') = pre @ [Encode c f q])"
          by (intro less.hyps) auto
        with unf show ?thesis by auto
      qed
    qed
  qed
qed

lemma pageSearch_in_band:
  assumes "Encode c f q \<in> set (snd (pageSearch toBlob canvas fmt t))"
    and "toBlob c f q = Some b" and "bsize b \<le> t" and "t * 0.85 \<le> bsize b"
  shows "fst (pageSearch toBlob canvas fmt t) = Inr (Some b) \<and>
         (\<exists>pre. snd (pageSearch toBlob canvas fmt t) = pre @ [Encode c f q])"
proof -
  let ?st = "\<lparr>quality = startQuality, iteration = 0, bestBlob = None, bestSize = PosInf,
              bestQuality = startQuality\<rparr>"
  from assms(1) have "Encode c f q \<in> set (snd (pageLoop toBlob canvas fmt t None ?st))"
    by (simp add: pageSearch_def Let_def)
  from pageLoop_in_band [OF this assms(2-4)] show ?thesis
    by (auto simp: pageSearch_def Let_def)
qed

section \<open>The search inside the body of a page\<close>

lemma afterDraw_suffix: "\<exists>pre. ev = pre @ afterDraw ev"
proof (induction ev rule: afterDraw.induct)
  case 1
  show ?case by simp
next
  case (2 c ev)
  have "Draw c # ev = [Draw c] @ afterDraw (Draw c # ev)" by simp
  then show ?case by blast
qed (auto intro: Cons_eq_appendI)

lemma searchEncodes_suffix: "\<exists>pre. ev = pre @ searchEncodes ev"
proof -
  obtain p1 where "ev = p1 @ afterDraw ev" using afterDraw_suffix by blast
  moreover obtain p2 where "afterDraw ev = p2 @ afterDraw (afterDraw ev)"
    using afterDraw_suffix by blast
  ultimately have "ev = (p1 @ p2) @ searchEncodes ev" by (simp add: searchEncodes_def)
  then show ?thesis by blast
qed

lemma processPage_shape:
  "searchEncodes (snd (processPage renderPageToCanvas toBlob wrapPDF file preset n p)) = [] \<or>
   (\<exists>c. searchEncodes (snd (processPage renderPageToCanvas toBlob wrapPDF file preset n p)) =
          snd (pageSearch toBlob c (format preset) (maxSizeKB preset * 1024)) \<and>
        (\<forall>found. fst (pageSearch toBlob c (format preset) (maxSizeKB preset * 1024)) = Inr (Some found) \<longrightarrow>
           (format preset \<noteq> ''application/pdf'' \<longrightarrow>
              (\<exists>out. fst (processPage renderPageToCanvas toBlob wrapPDF file preset n p) = Inr out \<and>
                 out_blob out = Some found \<and> newSize out = Fin (bsize found) \<and>
                 warning out = (bsize found > maxSizeKB preset * 1024))) \<and>
           (format preset = ''application/pdf'' \<longrightarrow>
              (\<forall>wb. wrapPDF found (widthPx preset) (heightPx preset) = Inr wb \<longrightarrow>
                (\<exists>out. fst (processPage renderPageToCanvas toBlob wrapPDF file preset n p) = Inr out \<and>
                   out_blob out = Some wb \<and> newSize out = Fin (bsize wb) \<and>
                   warning out = (bsize wb > maxSizeKB preset * 1024))))))"
  by (fastforce simp: processPage_def Let_def searchEncodes_def split: option.splits sum.splits)

text \<open>
  Page 1 of a three-page document with an encoder that yields 900 bytes at every quality
  and a target of 1 KB: as a JPEG, and as a PDF whose wrapping adds 200 bytes.
\<close>

lemma page_run_jpeg:
  "processPage renders (steady 900) wraps (filled 5000 ''application/pdf'') (jpegUnder 1) 3 1 =
    (Inr \<lparr>out_blob = Some (filled 900 ''image/jpeg''), originalSize = 5000, newSize = Fin 900,
          originalDimensions = \<lparr>width = Fin 1190, height = Fin 1684\<rparr>,
          newDimensions = \<lparr>width = c_width plannedPage, height = c_height plannedPage\<rparr>,
          warning = False, alreadyOptimal = False, pageCount = 3, pageNum = 1\<rparr>,
     [Render 1 2, Draw thumbnailPage, Encode thumbnailPage ''image/jpeg'' 0.75,
      Draw plannedPage, Encode plannedPage ''image/jpeg'' 0.92])"
  by (simp add: processPage_def renders_def steady_def jpegUnder_def Let_def page_search_eval
        thumbnailPage_def plannedPage_def)

lemma page_run_pdf:
  "processPage renders (steady 900) padded (filled 5000 ''application/pdf'') (pdfUnder 1) 3 1 =
    (Inr \<lparr>out_blob = Some (filled 1100 ''application/pdf''), originalSize = 5000,
          newSize = Fin 1100,
          originalDimensions = \<lparr>width = Fin 1190, height = Fin 1684\<rparr>,
          newDimensions = \<lparr>width = c_width plannedPage, height = c_height plannedPage\<rparr>,
          warning = True, alreadyOptimal = False, pageCount = 3, pageNum = 1\<rparr>,
     [Render 1 2, Draw thumbnailPage, Encode thumbnailPage ''application/pdf'' 0.75,
      Draw plannedPage, Encode plannedPage ''application/pdf'' 0.92])"
proof -
  have pad: "padded (filled 900 ''application/pdf'') w h = Inr (filled 1100 ''application/pdf'')"
    for w h
    by (simp add: padded_def filled_def replicate_add [symmetric])
  show ?thesis
    by (simp add: processPage_def renders_def steady_def pdfUnder_def Let_def page_search_eval
          thumbnailPage_def plannedPage_def pad)
qed

section \<open>Acceptance of the first encode in the band\<close>

text \<open>
  Claim C2, as amended.  In a run of the quality search, an encode whose size lies in the
  closed interval from 0.85 times the target to the target ends the search: it is the
  last encode of the run.  For \<^verbatim>\<open>compressImage\<close> the promise resolves with the blob, its
  size, the quality of the encode and warning false, and the last events are this encode
  and its progress notification.  For a page of \<^verbatim>\<open>extractAndProcessPages\<close> such an
  encode of the page's search is the last event of the page.  When the requested format
  is not \<^verbatim>\<open>application/pdf\<close> the outcome of the page holds this blob, its size as the
  new size, and warning false.  When the requested format is \<^verbatim>\<open>application/pdf\<close> and
  the wrapping succeeds, the outcome holds the wrapped document instead, and its warning
  is true exactly when the wrapped document is larger than the target.
\<close>

theorem in_band_encode_is_final:
  assumes "toBlob c f q = Some b"
    and "bsize b \<le> kb * 1024"
    and "kb * 1024 * 0.85 \<le> bsize b"
  shows "(Encode c f q \<in> set (snd (compressImage toBlob canvas fmt kb)) \<longrightarrow>
            fst (compressImage toBlob canvas fmt kb) =
              Inr \<lparr>r_blob = Some b, r_size = Fin (bsize b), r_quality = q, r_warning = False\<rparr> \<and>
            (\<exists>pre p. snd (compressImage toBlob canvas fmt kb) =
                       pre @ [Encode c f q, Progress p])) \<and>
         (maxSizeKB preset = kb \<longrightarrow>
          Encode c f q \<in> set (searchEncodes
             (snd (processPage renderPageToCanvas toBlob wrapPDF pdf preset n p))) \<longrightarrow>
            (\<exists>pre. snd (processPage renderPageToCanvas toBlob wrapPDF pdf preset n p) =
                     pre @ [Encode c f q]) \<and>
            (format preset \<noteq> ''application/pdf'' \<longrightarrow>
               (\<exists>out. fst (processPage renderPageToCanvas toBlob wrapPDF pdf preset n p) = Inr out \<and>
                  out_blob out = Some b \<and> newSize out = Fin (bsize b) \<and> \<not> warning out)) \<and>
            (format preset = ''application/pdf'' \<longrightarrow>
               (\<forall>wb. wrapPDF b (widthPx preset) (heightPx preset) = Inr wb \<longrightarrow>
                  (\<exists>out. fst (processPage renderPageToCanvas toBlob wrapPDF pdf preset n p) = Inr out \<and>
                     out_blob out = Some wb \<and> newSize out = Fin (bsize wb) \<and>
                     warning out = (bsize wb > kb * 1024)))))"
proof (intro conjI impI)
  assume "Encode c f q \<in> set (snd (compressImage toBlob canvas fmt kb))"
  then have *: "Encode c f q \<in> set (snd (tryCompress toBlob canvas fmt (kb * 1024)
      \<lparr>quality = startQuality, iteration = 0, bestBlob = None, bestSize = PosInf,
       bestQuality = startQuality\<rparr>))"
    by (simp add: compressImage_def)
  from tryCompress_in_band [OF * assms]
  show "fst (compressImage toBlob canvas fmt kb) =
      Inr \<lparr>r_blob = Some b, r_size = Fin (bsize b), r_quality = q, r_warning = False\<rparr>"
    and "\<exists>pre p. snd (compressImage toBlob canvas fmt kb) = pre @ [Encode c f q, Progress p]"
    by (simp_all add: compressImage_def)
next
  let ?page = "processPage renderPageToCanvas toBlob wrapPDF pdf preset n p"
  assume kb: "maxSizeKB preset = kb"
    and enc: "Encode c f q \<in> set (searchEncodes (snd ?page))"
  from enc have "searchEncodes (snd ?page) \<noteq> []" by auto
  with processPage_shape [of renderPageToCanvas toBlob wrapPDF pdf preset n p] kb
  obtain rc where
    ev: "searchEncodes (snd ?page) = snd (pageSearch toBlob rc (format preset) (kb * 1024))"
    and found: "\<And>found. fst (pageSearch toBlob rc (format preset) (kb * 1024)) = Inr (Some found) \<Longrightarrow>
           (format preset \<noteq> ''application/pdf'' \<longrightarrow>
              (\<exists>out. fst ?page = Inr out \<and>
                 out_blob out = Some found \<and> newSize out = Fin (bsize found) \<and>
                 warning out = (bsize found > kb * 1024))) \<and>
           (format preset = ''application/pdf'' \<longrightarrow>
              (\<forall>wb. wrapPDF found (widthPx preset) (heightPx preset) = Inr wb \<longrightarrow>
                (\<exists>out. fst ?page = Inr out \<and>
                   out_blob out = Some wb \<and> newSize out = Fin (bsize wb) \<and>
                   warning out = (bsize wb > kb * 1024))))"
    by blast
  from enc ev have "Encode c f q \<in> set (snd (pageSearch toBlob rc (format preset) (kb * 1024)))"
    by simp
  from pageSearch_in_band [OF this assms]
  have res: "fst (pageSearch toBlob rc (format preset) (kb * 1024)) = Inr (Some b)"
    and last: "\<exists>pre. snd (pageSearch toBlob rc (format preset) (kb * 1024)) = pre @ [Encode c f q]"
    by simp_all
  from last ev obtain pre where "searchEncodes (snd ?page) = pre @ [Encode c f q]" by auto
  moreover obtain pre' where "snd ?page = pre' @ searchEncodes (snd ?page)"
    using searchEncodes_suffix by blast
  ultimately have "snd ?page = (pre' @ pre) @ [Encode c f q]" by simp
  then show "\<exists>pre. snd ?page = pre @ [Encode c f q]" by blast
  {
    assume "format preset \<noteq> ''application/pdf''"
    with found [OF res] assms(2)
    show "\<exists>out. fst ?page = Inr out \<and> out_blob out = Some b \<and> newSize out = Fin (bsize b) \<and>
        \<not> warning out" by auto
  }
  {
    assume "format preset = ''application/pdf''"
    with found [OF res]
    show "\<forall>wb. wrapPDF b (widthPx preset) (heightPx preset) = Inr wb \<longrightarrow>
        (\<exists>out. fst ?page = Inr out \<and> out_blob out = Some wb \<and> newSize out = Fin (bsize wb) \<and>
           warning out = (bsize wb > kb * 1024))" by blast
  }
qed

theorem in_band_encode_is_final_witness:
  "fst (compressImage (steady 900) boxed ''image/jpeg'' 1) =
     Inr \<lparr>r_blob = Some (filled 900 ''image/jpeg''), r_size = Fin 900, r_quality = 0.92,
           r_warning = False\<rparr> \<and>
   (\<exists>pre p. snd (compressImage (steady 900) boxed ''image/jpeg'' 1) =
              pre @ [Encode boxed ''image/jpeg'' 0.92, Progress p]) \<and>
   (\<exists>pre. snd (processPage renders (steady 900) wraps (filled 5000 ''application/pdf'')
              (jpegUnder 1) 3 1) = pre @ [Encode plannedPage ''image/jpeg'' 0.92]) \<and>
   (\<exists>out. fst (processPage renders (steady 900) wraps (filled 5000 ''application/pdf'')
              (jpegUnder 1) 3 1) = Inr out \<and>
          out_blob out = Some (filled 900 ''image/jpeg'') \<and> newSize out = Fin 900 \<and>
          \<not> warning out)"
proof -
  have enc: "steady 900 plannedPage ''image/jpeg'' 0.92 = Some (filled 900 ''image/jpeg'')"
    and enc': "steady 900 boxed ''image/jpeg'' 0.92 = Some (filled 900 ''image/jpeg'')"
    by (simp_all add: steady_def)
  have le: "bsize (filled 900 ''image/jpeg'') \<le> 1 * 1024"
    and ge: "1 * 1024 * 0.85 \<le> bsize (filled 900 ''image/jpeg'')"
    by simp_all
  have a: "Encode boxed ''image/jpeg'' 0.92 \<in>
      set (snd (compressImage (steady 900) boxed ''image/jpeg'' 1))"
    by (simp add: search_eval steady_def)
  have kb: "maxSizeKB (jpegUnder 1) = 1" and fmt: "format (jpegUnder 1) \<noteq> ''application/pdf''"
    by (simp_all add: jpegUnder_def)
  have b: "Encode plannedPage ''image/jpeg'' 0.92 \<in> set (searchEncodes
      (snd (processPage renders (steady 900) wraps (filled 5000 ''application/pdf'')
         (jpegUnder 1) 3 1)))"
    by (simp add: page_run_jpeg searchEncodes_def)
  from in_band_encode_is_final [where toBlob = "steady 900" and c = boxed and
      f = "''image/jpeg''" and q = "0.92" and b = "filled 900 ''image/jpeg''" and kb = 1 and
      canvas = boxed and fmt = "''image/jpeg''", OF enc' le ge] a
  have first: "fst (compressImage (steady 900) boxed ''image/jpeg'' 1) =
     Inr \<lparr>r_blob = Some (filled 900 ''image/jpeg''), r_size = Fin 900, r_quality = 0.92,
           r_warning = False\<rparr> \<and>
   (\<exists>pre p. snd (compressImage (steady 900) boxed ''image/jpeg'' 1) =
              pre @ [Encode boxed ''image/jpeg'' 0.92, Progress p])"
    by simp
  from in_band_encode_is_final [where toBlob = "steady 900" and c = plannedPage and
      f = "''image/jpeg''" and q = "0.92" and b = "filled 900 ''image/jpeg''" and kb = 1 and
      preset = "jpegUnder 1" and renderPageToCanvas = renders and wrapPDF = wraps and
      pdf = "filled 5000 ''application/pdf''" and n = 3 and p = 1, OF enc le ge] kb fmt b
  have second: "(\<exists>pre. snd (processPage renders (steady 900) wraps (filled 5000 ''application/pdf'')
              (jpegUnder 1) 3 1) = pre @ [Encode plannedPage ''image/jpeg'' 0.92]) \<and>
   (\<exists>out. fst (processPage renders (steady 900) wraps (filled 5000 ''application/pdf'')
              (jpegUnder 1) 3 1) = Inr out \<and>
          out_blob out = Some (filled 900 ''image/jpeg'') \<and> newSize out = Fin 900 \<and>
          \<not> warning out)"
    by simp
  from first second show ?thesis by blast
qed

text \<open>
  Claim C2 as stated fails for a page that is wrapped in a PDF.  The encoder yields 900
  bytes, inside the band of a 1 KB target, at the first quality; the wrapping adds 200
  bytes.  The outcome of the page holds the wrapped document of 1100 bytes, which is not
  the encode, and its warning is true.
\<close>

theorem wrapped_page_warns_in_band:
  "processPage renders (steady 900) padded (filled 5000 ''application/pdf'') (pdfUnder 1) 3 1 =
    (Inr \<lparr>out_blob = Some (filled 1100 ''application/pdf''), originalSize = 5000,
          newSize = Fin 1100,
          originalDimensions = \<lparr>width = Fin 1190, height = Fin 1684\<rparr>,
          newDimensions = \<lparr>width = c_width plannedPage, height = c_height plannedPage\<rparr>,
          warning = True, alreadyOptimal = False, pageCount = 3, pageNum = 1\<rparr>,
     [Render 1 2, Draw thumbnailPage, Encode thumbnailPage ''application/pdf'' 0.75,
      Draw plannedPage, Encode plannedPage ''application/pdf'' 0.92]) \<and>
   steady 900 plannedPage ''application/pdf'' 0.92 = Some (filled 900 ''application/pdf'') \<and>
   maxSizeKB (pdfUnder 1) * 1024 * 0.85 \<le> bsize (filled 900 ''application/pdf'') \<and>
   bsize (filled 900 ''application/pdf'') \<le> maxSizeKB (pdfUnder 1) * 1024"
proof -
  have "steady 900 plannedPage ''application/pdf'' 0.92 = Some (filled 900 ''application/pdf'')"
    by (simp add: steady_def)
  moreover have "maxSizeKB (pdfUnder 1) * 1024 * 0.85 \<le> bsize (filled 900 ''application/pdf'')"
    and "bsize (filled 900 ''application/pdf'') \<le> maxSizeKB (pdfUnder 1) * 1024"
    by (simp_all add: pdfUnder_def)
  ultimately show ?thesis using page_run_pdf by blast
qed

section \<open>The result of a search never lacks a blob\<close>

text \<open>
  Claim C9, as amended.  \<^verbatim>\<open>compressImage\<close> never resolves with a \<^verbatim>\<open>null\<close> blob: the
  branch of \<^verbatim>\<open>tryCompress\<close> that resolves with blob \<^verbatim>\<open>null\<close>, size 0, quality 0 and
  warning true is never taken.  A search in which every encode is over the target makes
  at most nine encodes and ends with an encode at the quality floor.  A search that
  reaches the cap has made 25 encodes, and a search that makes more than nine encodes
  resolves with the blob of one of its encodes, whose size is at most the target.
\<close>

theorem compressImage_blob_never_null:
  assumes "fst (compressImage toBlob canvas fmt kb) = Inr r"
  shows "r_blob r \<noteq> None \<and>
    ((\<forall>e \<in> set (snd (compressImage toBlob canvas fmt kb)).
        \<forall>c f q b. e = Encode c f q \<longrightarrow> toBlob c f q = Some b \<longrightarrow> kb * 1024 < bsize b) \<longrightarrow>
       encodeCount (snd (compressImage toBlob canvas fmt kb)) \<le> 9 \<and>
       (\<exists>pre q p. snd (compressImage toBlob canvas fmt kb) =
                    pre @ [Encode canvas fmt q, Progress p] \<and> q \<le> minQuality)) \<and>
    (capReached toBlob canvas fmt kb \<longrightarrow>
       encodeCount (snd (compressImage toBlob canvas fmt kb)) = 25) \<and>
    (9 < encodeCount (snd (compressImage toBlob canvas fmt kb)) \<longrightarrow>
       (\<exists>q b. Encode canvas fmt q \<in> set (snd (compressImage toBlob canvas fmt kb)) \<and>
              toBlob canvas fmt q = Some b \<and> bsize b \<le> kb * 1024 \<and> r_blob r = Some b))"
proof -
  let ?st = "\<lparr>quality = startQuality, iteration = 0, bestBlob = None, bestSize = PosInf,
      bestQuality = startQuality\<rparr>"
  let ?run = "tryCompress toBlob canvas fmt (kb * 1024) ?st"
  let ?over = "\<forall>e \<in> set (snd ?run).
        \<forall>c f q b. e = Encode c f q \<longrightarrow> toBlob c f q = Some b \<longrightarrow> kb * 1024 < bsize b"
  have inv: "bestBlob ?st = None \<longrightarrow> unrecorded ?st"
    using initial_unrecorded by blast
  from assms have res: "fst ?run = Inr r" by (simp add: compressImage_def)
  have blob: "r_blob r \<noteq> None"
    using inv res by (rule tryCompress_blob)
  have count: "encodeCount (snd ?run) \<le> 9" if ?over
    using tryCompress_over_count [OF initial_unrecorded res that] by simp
  have floor: "\<exists>pre q p. snd ?run = pre @ [Encode canvas fmt q, Progress p] \<and> q \<le> minQuality"
    if ?over
    using tryCompress_all_over [OF initial_unrecorded res that] by blast
  have fits: "\<exists>q b. Encode canvas fmt q \<in> set (snd ?run) \<and> toBlob canvas fmt q = Some b \<and>
      bsize b \<le> kb * 1024 \<and> r_blob r = Some b" if "9 < encodeCount (snd ?run)"
  proof -
    have "\<not> ?over"
    proof
      assume ?over
      from count [OF this] that show False by simp
    qed
    then obtain c f q b where "Encode c f q \<in> set (snd ?run)" "toBlob c f q = Some b"
      "bsize b \<le> kb * 1024" by force
    then have some: "bestBlob ?st \<noteq> None \<or>
         (\<exists>c f q b. Encode c f q \<in> set (snd ?run) \<and> toBlob c f q = Some b \<and>
            bsize b \<le> kb * 1024)" by blast
    have none: "\<forall>x. bestBlob ?st = Some x \<longrightarrow> bsize x \<le> kb * 1024 \<and> False" by simp
    from tryCompress_fits [OF inv none res some] show ?thesis by blast
  qed
  have cap: "encodeCount (snd ?run) = 25" if "capReached toBlob canvas fmt kb"
    using capReachedFrom_count [of ?st toBlob canvas fmt "kb * 1024"] that
    by (simp add: capReached_def)
  from blob count floor fits cap show ?thesis
    by (simp add: compressImage_def)
qed

text \<open>
  On the encoder \<open>seesaw\<close> the search runs into the cap of 25 encodes and resolves with
  the 600-byte blob recorded at quality 0.84; on \<open>steady 3000\<close> every encode is over
  the target and the search makes six encodes.
\<close>

theorem compressImage_blob_never_null_witness:
  "capReached seesaw boxed ''image/jpeg'' 1 \<and>
   encodeCount (snd (compressImage seesaw boxed ''image/jpeg'' 1)) = 25 \<and>
   (\<exists>q. Encode boxed ''image/jpeg'' q \<in> set (snd (compressImage seesaw boxed ''image/jpeg'' 1)) \<and>
        seesaw boxed ''image/jpeg'' q = Some (filled 600 ''image/jpeg'') \<and>
        bsize (filled 600 ''image/jpeg'') \<le> 1 * 1024) \<and>
   r_blob \<lparr>r_blob = Some (filled 600 ''image/jpeg''), r_size = Fin 600, r_quality = 0.84,
           r_warning = False\<rparr> \<noteq> None \<and>
   encodeCount (snd (compressImage (steady 3000) boxed ''image/jpeg'' 1)) \<le> 9"
proof -
  have run: "fst (compressImage seesaw boxed ''image/jpeg'' 1) =
     Inr \<lparr>r_blob = Some (filled 600 ''image/jpeg''), r_size = Fin 600, r_quality = 0.84,
           r_warning = False\<rparr>"
    by (simp add: search_eval seesaw_def)
  have cap: "capReached seesaw boxed ''image/jpeg'' 1"
    by (simp add: capReached_def capReachedFrom.simps onBlob_def Let_def seesaw_def)
  from compressImage_blob_never_null [OF run] cap
  have len: "encodeCount (snd (compressImage seesaw boxed ''image/jpeg'' 1)) = 25"
    by blast
  have run2: "compressImage (steady 3000) boxed ''image/jpeg'' 1 =
    (Inr \<lparr>r_blob = Some (filled 3000 ''image/jpeg''), r_size = PosInf, r_quality = 0.92,
          r_warning = True\<rparr>,
     [Encode boxed ''image/jpeg'' 0.92, Progress 0, Encode boxed ''image/jpeg'' 0.77, Progress 4,
      Encode boxed ''image/jpeg'' 0.62, Progress 8, Encode boxed ''image/jpeg'' 0.47, Progress 12,
      Encode boxed ''image/jpeg'' 0.32, Progress 16, Encode boxed ''image/jpeg'' 0.3, Progress 20])"
    by (simp add: search_eval steady_def)
  have res2: "fst (compressImage (steady 3000) boxed ''image/jpeg'' 1) =
    Inr \<lparr>r_blob = Some (filled 3000 ''image/jpeg''), r_size = PosInf, r_quality = 0.92,
          r_warning = True\<rparr>"
    by (simp add: run2)
  have over: "\<forall>e \<in> set (snd (compressImage (steady 3000) boxed ''image/jpeg'' 1)).
      \<forall>c f q b. e = Encode c f q \<longrightarrow> steady 3000 c f q = Some b \<longrightarrow> 1 * 1024 < bsize b"
    by (auto simp: run2 steady_def)
  from compressImage_blob_never_null [OF run] len
  have a: "(\<exists>q. Encode boxed ''image/jpeg'' q \<in> set (snd (compressImage seesaw boxed ''image/jpeg'' 1)) \<and>
        seesaw boxed ''image/jpeg'' q = Some (filled 600 ''image/jpeg'') \<and>
        bsize (filled 600 ''image/jpeg'') \<le> 1 * 1024) \<and>
     r_blob \<lparr>r_blob = Some (filled 600 ''image/jpeg''), r_size = Fin 600, r_quality = 0.84,
           r_warning = False\<rparr> \<noteq> None"
    by simp
  from compressImage_blob_never_null [OF res2] over
  have b: "encodeCount (snd (compressImage (steady 3000) boxed ''image/jpeg'' 1)) \<le> 9"
    by blast
  from a b len cap show ?thesis by blast
qed

text \<open>
  Claim C9 as stated says that a caller can receive a result without a blob.  No
  encoder, canvas, format and target make \<^verbatim>\<open>compressImage\<close> resolve with it.
\<close>

theorem null_result_unreachable:
  "\<not> (\<exists>toBlob canvas fmt kb.
        fst (compressImage toBlob canvas fmt kb) =
          Inr \<lparr>r_blob = None, r_size = Fin 0, r_quality = 0, r_warning = True\<rparr>)"
proof
  assume "\<exists>toBlob canvas fmt kb.
        fst (compressImage toBlob canvas fmt kb) =
          Inr \<lparr>r_blob = None, r_size = Fin 0, r_quality = 0, r_warning = True\<rparr>"
  then obtain toBlob canvas fmt kb where
    *: "fst (tryCompress toBlob canvas fmt (kb * 1024)
          \<lparr>quality = startQuality, iteration = 0, bestBlob = None, bestSize = PosInf,
           bestQuality = startQuality\<rparr>) =
          Inr \<lparr>r_blob = None, r_size = Fin 0, r_quality = 0, r_warning = True\<rparr>"
    by (auto simp: compressImage_def)
  have "bestBlob \<lparr>quality = startQuality, iteration = 0, bestBlob = None, bestSize = PosInf,
      bestQuality = startQuality\<rparr> = None \<longrightarrow>
    unrecorded \<lparr>quality = startQuality, iteration = 0, bestBlob = None, bestSize = PosInf,
      bestQuality = startQuality\<rparr>"
    using initial_unrecorded by blast
  from tryCompress_blob [OF this *] show False by simp
qed

section \<open>A search stopped at the quality floor reports an infinite size\<close>

text \<open>
  Claim C10.  When \<^verbatim>\<open>compressImage\<close> resolves and every encode of the run was over the
  target (so that no encode was ever recorded as best), the run stopped at the quality
  floor: its last encode was made at a quality of at most 0.3, the blob of the result is
  the blob of that last encode, the warning is true, and the size of the result is
  \<^verbatim>\<open>Infinity\<close>, which is not the size of the blob.
\<close>

theorem floor_stop_reports_infinity:
  assumes "fst (compressImage toBlob canvas fmt kb) = Inr r"
    and "\<forall>e \<in> set (snd (compressImage toBlob canvas fmt kb)).
           \<forall>c f q b. e = Encode c f q \<longrightarrow> toBlob c f q = Some b \<longrightarrow> kb * 1024 < bsize b"
  shows "\<exists>pre q p b.
           snd (compressImage toBlob canvas fmt kb) = pre @ [Encode canvas fmt q, Progress p] \<and>
           toBlob canvas fmt q = Some b \<and> q \<le> minQuality \<and>
           r_blob r = Some b \<and> r_size r = PosInf \<and> r_size r \<noteq> Fin (bsize b) \<and> r_warning r"
proof -
  from tryCompress_all_over [OF initial_unrecorded assms [unfolded compressImage_def]]
  show ?thesis by (auto simp: compressImage_def)
qed

theorem floor_stop_reports_infinity_witness:
  "\<exists>pre q p b.
     snd (compressImage (steady 3000) boxed ''image/jpeg'' 1) =
       pre @ [Encode boxed ''image/jpeg'' q, Progress p] \<and>
     steady 3000 boxed ''image/jpeg'' q = Some b \<and> q \<le> minQuality \<and>
     r_blob \<lparr>r_blob = Some (filled 3000 ''image/jpeg''), r_size = PosInf, r_quality = 0.92,
             r_warning = True\<rparr> = Some b \<and>
     r_size \<lparr>r_blob = Some (filled 3000 ''image/jpeg''), r_size = PosInf, r_quality = 0.92,
             r_warning = True\<rparr> = PosInf"
proof -
  have run: "compressImage (steady 3000) boxed ''image/jpeg'' 1 =
    (Inr \<lparr>r_blob = Some (filled 3000 ''image/jpeg''), r_size = PosInf, r_quality = 0.92,
          r_warning = True\<rparr>,
     [Encode boxed ''image/jpeg'' 0.92, Progress 0, Encode boxed ''image/jpeg'' 0.77, Progress 4,
      Encode boxed ''image/jpeg'' 0.62, Progress 8, Encode boxed ''image/jpeg'' 0.47, Progress 12,
      Encode boxed ''image/jpeg'' 0.32, Progress 16, Encode boxed ''image/jpeg'' 0.3, Progress 20])"
    by (simp add: search_eval steady_def)
  have res: "fst (compressImage (steady 3000) boxed ''image/jpeg'' 1) =
    Inr \<lparr>r_blob = Some (filled 3000 ''image/jpeg''), r_size = PosInf, r_quality = 0.92,
          r_warning = True\<rparr>"
    by (simp add: run)
  have over: "\<forall>e \<in> set (snd (compressImage (steady 3000) boxed ''image/jpeg'' 1)).
      \<forall>c f q b. e = Encode c f q \<longrightarrow> steady 3000 c f q = Some b \<longrightarrow> 1 * 1024 < bsize b"
    by (auto simp: run steady_def)
  from floor_stop_reports_infinity [OF res over] show ?thesis by auto
qed

section \<open>The passthrough of a file that already fits\<close>

text \<open>
  Claim C3, as amended.  For a file that decodes, whose size is at most the target and
  whose type is the requested format, \<^verbatim>\<open>processImage\<close> returns the file itself as the blob, with
  the new size equal to the original size, the dimensions unchanged, warning false and
  \<^verbatim>\<open>alreadyOptimal\<close> true; the only events of the call are the progress values 10 and
  20, so no encode is performed.
\<close>

theorem passthrough_returns_input:
  assumes "loadImage file = Some img"
    and "bsize file \<le> maxSizeKB preset * 1024"
    and "mime file = format preset"
  shows "processImage loadImage toBlob file preset =
    (Inr \<lparr>out_blob = Some file, originalSize = bsize file, newSize = Fin (bsize file),
          originalDimensions = \<lparr>width = Fin (real (img_width img)),
                                height = Fin (real (img_height img))\<rparr>,
          newDimensions = \<lparr>width = Fin (real (img_width img)),
                           height = Fin (real (img_height img))\<rparr>,
          warning = False, alreadyOptimal = True\<rparr>,
     [Progress 10, Progress 20]) \<and>
    encodeCount (snd (processImage loadImage toBlob file preset)) = 0"
  using assms by (simp add: processImage_def Let_def)

theorem passthrough_returns_input_witness:
  "processImage decodes (steady 900) (filled 100 ''image/jpeg'') (jpegUnder 1) =
    (Inr \<lparr>out_blob = Some (filled 100 ''image/jpeg''), originalSize = 100, newSize = Fin 100,
          originalDimensions = \<lparr>width = Fin 1000, height = Fin 800\<rparr>,
          newDimensions = \<lparr>width = Fin 1000, height = Fin 800\<rparr>,
          warning = False, alreadyOptimal = True\<rparr>,
     [Progress 10, Progress 20]) \<and>
   encodeCount (snd (processImage decodes (steady 900) (filled 100 ''image/jpeg'') (jpegUnder 1))) = 0"
proof -
  have a: "decodes (filled 100 ''image/jpeg'') = Some photo"
    by (simp add: decodes_def)
  have b: "bsize (filled 100 ''image/jpeg'') \<le> maxSizeKB (jpegUnder 1) * 1024"
    and c: "mime (filled 100 ''image/jpeg'') = format (jpegUnder 1)"
    by (simp_all add: jpegUnder_def)
  from passthrough_returns_input [of decodes "filled 100 ''image/jpeg''" photo "jpegUnder 1"
      "steady 900", OF a b c]
  show ?thesis
    by (simp add: photo_def)
qed

text \<open>
  Claim C3 as stated fails for a file that does not decode.  The image is loaded before
  the size is tested, so a file that fits the target, has the requested format and does
  not decode is rejected after the first progress value, with no outcome.
\<close>

theorem undecodable_file_is_rejected:
  "processImage undecodable (steady 900) (filled 100 ''image/jpeg'') (jpegUnder 1) =
     (Inl Rejected, [Progress 10]) \<and>
   bsize (filled 100 ''image/jpeg'') \<le> maxSizeKB (jpegUnder 1) * 1024 \<and>
   mime (filled 100 ''image/jpeg'') = format (jpegUnder 1)"
  by (simp add: processImage_def undecodable_def jpegUnder_def)

section \<open>The warning of \<^verbatim>\<open>processImage\<close> against the size it reports\<close>

lemma onBlob_Resolve_warns:
  assumes "onBlob t st b = Resolve r" and "js_gt (r_size r) (Fin t)"
  shows "r_warning r"
proof -
  have "\<not> (bsize b < t * 0.85 * 0.5 \<and> t < bsize b)"
    using bsize_nonneg [of b] by simp
  with assms show ?thesis
    by (auto simp: onBlob_def Let_def split: if_splits)
qed

lemma tryCompress_warns:
  "fst (tryCompress toBlob canvas fmt t st) = Inr r \<Longrightarrow> js_gt (r_size r) (Fin t) \<Longrightarrow>
   r_warning r"
proof (induction "maxIterations - iteration st" arbitrary: st rule: less_induct)
  case less
  show ?case
  proof (cases "iteration st < maxIterations")
    case False
    with less.prems show ?thesis
      by (subst (asm) tryCompress.simps) (auto split: option.splits)
  next
    case True
    note step = tryCompress_step [OF True, of toBlob canvas fmt t]
    show ?thesis
    proof (cases "toBlob canvas fmt (quality st)")
      case None
      with less.prems step show ?thesis by simp
    next
      case (Some b)
      show ?thesis
      proof (cases "onBlob t st b")
        case (Resolve result)
        with Some step less.prems show ?thesis by (auto dest: onBlob_Resolve_warns)
      next
        case (Again st')
        have "iteration st' = Suc (iteration st)"
          using Again by (rule onBlob_Again_iteration)
        moreover have "fst (tryCompress toBlob canvas fmt t st') = Inr r"
          using Some Again step less.prems(1) by simp
        ultimately show ?thesis using True less.prems(2) by (intro less.hyps) auto
      qed
    qed
  qed
qed

lemma compressImage_warns:
  "fst (compressImage toBlob canvas fmt kb) = Inr r \<Longrightarrow> js_gt (r_size r) (Fin (kb * 1024)) \<Longrightarrow>
   r_warning r"
  unfolding compressImage_def by (rule tryCompress_warns)

text \<open>An outcome whose size is over the target carries the warning, on every path.\<close>

lemma processImage_warns_when_over:
  assumes "processImage loadImage toBlob file preset = (Inr out, ev)"
    and "js_gt (newSize out) (Fin (maxSizeKB preset * 1024))"
  shows "warning out"
  using assms
  by (auto simp: processImage_def Let_def dest: compressImage_warns
           split: option.splits sum.splits if_splits)

text \<open>
  Off the format-conversion path the warning is exactly the comparison of the new size
  with the target.
\<close>

lemma processImage_warning_iff:
  assumes "processImage loadImage toBlob file preset = (Inr out, ev)"
    and "maxSizeKB preset * 1024 < bsize file \<or> mime file = format preset"
  shows "warning out \<longleftrightarrow> js_gt (newSize out) (Fin (maxSizeKB preset * 1024))"
  using assms
  by (auto simp: processImage_def Let_def split: option.splits sum.splits if_splits)

text \<open>
  Claim C1 fails on the format-conversion path.  There the warning is taken from
  \<^verbatim>\<open>compressImage\<close>, whose exit at the quality floor resolves with the best blob
  recorded under the target and a warning that is always true.  The file below (100
  bytes, PNG) fits the 1 KB target and is converted to JPEG; the encoder yields 700 bytes
  at quality 0.92 and 3000 bytes at every other quality.  The outcome holds the 700-byte
  blob, a new size of 700 bytes, which is not above the 1024 bytes of the target, and
  warning true.
\<close>

theorem floor_exit_warns_under_target:
  "fst (processImage decodes flicker (filled 100 ''image/png'') (jpegUnder 1)) =
     Inr \<lparr>out_blob = Some (filled 700 ''image/jpeg''), originalSize = 100, newSize = Fin 700,
           originalDimensions = \<lparr>width = Fin 1000, height = Fin 800\<rparr>,
           newDimensions = \<lparr>width = Fin 1000, height = Fin 800\<rparr>,
           warning = True, alreadyOptimal = False\<rparr> \<and>
   \<not> js_gt (Fin 700) (Fin (maxSizeKB (jpegUnder 1) * 1024))"
  by (simp add: image_eval search_eval flicker_def)

section \<open>Planned dimensions and the aspect ratio\<close>







section \<open>The best attempt of the whole-document search\<close>

lemma attempt_progress: "round_half_up (8 * real a) = 8 * int a"
  unfolding round_half_up_def by linarith

lemma attemptLoop_done:
  "\<not> attempt < maxAttempts \<Longrightarrow>
   attemptLoop rebuild t attempt q best =
     (Inr (fst best, snd best, js_gt (snd best) (Fin t)), [Progress 100])"
  by (subst attemptLoop.simps) simp

lemma attemptLoop_step:
  assumes "attempt < maxAttempts"
  shows "attemptLoop rebuild t attempt q best =
    (case rebuild q of
       Inl f \<Rightarrow> (Inl f, [Progress (10 + 8 * int attempt), Rebuild q])
     | Inr b \<Rightarrow>
        (case adjustQuality t q b of
           Accept \<Rightarrow> (Inr (Some b, Fin (bsize b), False),
                      [Progress (10 + 8 * int attempt), Rebuild q, Progress 100])
         | Stop \<Rightarrow> (Inr (fst (trackBest t b best), snd (trackBest t b best),
                          js_gt (snd (trackBest t b best)) (Fin t)),
                    [Progress (10 + 8 * int attempt), Rebuild q, Progress 100])
         | Adjust q' \<Rightarrow>
             prepend [Progress (10 + 8 * int attempt), Rebuild q]
               (attemptLoop rebuild t (attempt + 1) q' (trackBest t b best))))"
  using assms
  by (subst attemptLoop.simps)
     (simp add: Let_def attempt_progress split: sum.splits doc_step.splits del: of_nat_Suc)

lemmas doc_eval = compressFullPDF_def attemptLoop_step attemptLoop_done trackBest_def
  adjustQuality_def js_gt_def Let_def

text \<open>
  The warning of the whole-document search is true exactly when no attempt fitted the
  target, and an attempt in the band ends the search and is returned.
\<close>

lemma trackBest_tracked:
  assumes "tracked best"
  shows "tracked (trackBest t b best) \<and> (fits t (trackBest t b best) \<longleftrightarrow> fits t best \<or> bsize b \<le> t)"
  using assms by (auto simp: tracked_def fits_def trackBest_def)

lemma tracked_warning: "tracked best \<Longrightarrow> js_gt (snd best) (Fin t) \<longleftrightarrow> \<not> fits t best"
  by (auto simp: tracked_def fits_def js_gt_def)

lemma attemptLoop_warning:
  assumes "tracked best"
    and "fst (attemptLoop rebuild t attempt q best) = Inr (found, sz, w)"
  shows "w \<longleftrightarrow> \<not> (fits t best \<or>
           (\<exists>q' b. Rebuild q' \<in> set (snd (attemptLoop rebuild t attempt q best)) \<and>
                   rebuild q' = Inr b \<and> bsize b \<le> t))"
  using assms
proof (induction "maxAttempts - attempt" arbitrary: attempt q best rule: less_induct)
  case less
  show ?case
  proof (cases "attempt < maxAttempts")
    case False
    with less.prems show ?thesis
      by (auto simp: attemptLoop_done tracked_warning)
  next
    case True
    note step = attemptLoop_step [OF True, of rebuild t q best]
    show ?thesis
    proof (cases "rebuild q")
      case (Inl f)
      with step less.prems show ?thesis by simp
    next
      case (Inr b)
      note tb = trackBest_tracked [OF less.prems(1), of t b]
      show ?thesis
      proof (cases "adjustQuality t q b")
        case Accept
        then have "bsize b \<le> t" by (auto simp: adjustQuality_def split: if_splits)
        with Inr Accept step less.prems(2) show ?thesis by auto
      next
        case Stop
        with Inr step less.prems(2) have "w = js_gt (snd (trackBest t b best)) (Fin t)" by auto
        with tb have "w \<longleftrightarrow> \<not> (fits t best \<or> bsize b \<le> t)"
          by (simp add: tracked_warning)
        with Inr Stop step show ?thesis by auto
      next
        case (Adjust q')
        let ?next = "attemptLoop rebuild t (attempt + 1) q' (trackBest t b best)"
        have "fst ?next = Inr (found, sz, w)"
          using Inr Adjust step less.prems(2) by simp
        with tb True have "w \<longleftrightarrow> \<not> (fits t (trackBest t b best) \<or>
           (\<exists>q'' b'. Rebuild q'' \<in> set (snd ?next) \<and> rebuild q'' = Inr b' \<and> bsize b' \<le> t))"
          by (intro less.hyps) auto
        with tb Inr Adjust step show ?thesis by auto
      qed
    qed
  qed
qed

lemma compressFullPDF_warning:
  assumes "fst (compressFullPDF getPageCount rebuildPDF file kb) = Inr out"
    and "getPageCount file = Some n"
  shows "warning out \<longleftrightarrow>
     \<not> (\<exists>q b. Rebuild q \<in> set (snd (compressFullPDF getPageCount rebuildPDF file kb)) \<and>
              rebuildPDF file n q = Inr b \<and> bsize b \<le> kb * 1024)"
proof -
  let ?run = "attemptLoop (rebuildPDF file n) (kb * 1024) 0 0.75 (None, PosInf)"
  from assms obtain found sz w where run: "fst ?run = Inr (found, sz, w)" and w: "warning out = w"
    by (auto simp: compressFullPDF_def Let_def split: sum.splits prod.splits)
  have "tracked (None, PosInf)" by (simp add: tracked_def)
  from attemptLoop_warning [OF this run] have "w \<longleftrightarrow>
      \<not> (\<exists>q b. Rebuild q \<in> set (snd ?run) \<and> rebuildPDF file n q = Inr b \<and> bsize b \<le> kb * 1024)"
    by (simp add: fits_def)
  with w assms(2) run show ?thesis
    by (simp add: compressFullPDF_def Let_def split: sum.splits prod.splits)
qed

lemma attemptLoop_in_band:
  assumes "Rebuild q' \<in> set (snd (attemptLoop rebuild t attempt q best))"
    and "rebuild q' = Inr b" and "bsize b \<le> t" and "t * 0.9 \<le> bsize b"
  shows "fst (attemptLoop rebuild t attempt q best) = Inr (Some b, Fin (bsize b), False) \<and>
         (\<exists>pre. snd (attemptLoop rebuild t attempt q best) = pre @ [Rebuild q', Progress 100])"
  using assms(1)
proof (induction "maxAttempts - attempt" arbitrary: attempt q best rule: less_induct)
  case less
  show ?case
  proof (cases "attempt < maxAttempts")
    case False
    with less.prems show ?thesis by (simp add: attemptLoop_done)
  next
    case True
    note step = attemptLoop_step [OF True, of rebuild t q best]
    have band: "adjustQuality t q'' b = Accept" for q''
      using assms(3,4) by (simp add: adjustQuality_def)
    show ?thesis
    proof (cases "q' = q")
      case True
      with assms(2) band step show ?thesis by auto
    next
      case False
      show ?thesis
      proof (cases "rebuild q")
        case (Inl f)
        with step less.prems False show ?thesis by simp
      next
        case (Inr b')
        show ?thesis
        proof (cases "adjustQuality t q b'")
          case Accept
          with Inr step less.prems False show ?thesis by simp
        next
          case Stop
          with Inr step less.prems False show ?thesis by simp
        next
          case (Adjust q'')
          let ?next = "attemptLoop rebuild t (attempt + 1) q'' (trackBest t b' best)"
          from Inr Adjust step less.prems False have "Rebuild q' \<in> set (snd ?next)" by simp
          with True have "fst ?next = Inr (Some b, Fin (bsize b), False) \<and>
              (\<exists>pre. snd ?next = pre @ [Rebuild q', Progress 100])"
            by (intro less.hyps) auto
          with Inr Adjust step show ?thesis by auto
        qed
      qed
    qed
  qed
qed

text \<open>
  Claim C5 fails in the tracking of the best attempt.  The block that tracks it replaces
  a recorded attempt under the target by any later attempt that is smaller.  With a
  target of 1 KB and a rebuild of 2000 bytes at quality 0.75, 1100 bytes at 0.70, 800
  bytes at 0.65 and 700 bytes at 0.60, the ten attempts run through the qualities 0.75,
  0.65, 0.70, 0.60, 0.65, 0.70, 0.60, 0.65, 0.70, 0.60; no attempt falls in the band from
  921.6 to 1024 bytes, and the document returned is the one of 700 bytes, although the
  attempts at quality 0.65 produced 800 bytes, which fit the target as well.
\<close>

theorem full_pdf_returns_smaller_attempt:
  "fst (compressFullPDF threePages stepped (filled 5000 ''application/pdf'') 1) =
     Inr \<lparr>out_blob = Some (filled 700 ''application/pdf''), originalSize = 5000,
           newSize = Fin 700,
           originalDimensions = \<lparr>width = Fin 595, height = Fin 842\<rparr>,
           newDimensions = \<lparr>width = Fin 595, height = Fin 842\<rparr>,
           warning = False, alreadyOptimal = False, pageCount = 3, pageNum = 1,
           out_size = Fin 700\<rparr> \<and>
   Rebuild 0.65 \<in> set (snd (compressFullPDF threePages stepped (filled 5000 ''application/pdf'') 1)) \<and>
   stepped (filled 5000 ''application/pdf'') 3 0.65 = Inr (filled 800 ''application/pdf'') \<and>
   bsize (filled 800 ''application/pdf'') \<le> 1 * 1024"
  by (simp add: doc_eval threePages_def stepped_def)

section \<open>The fallback retry of \<^verbatim>\<open>processImage\<close>\<close>

lemma resizes_tryCompress: "resizes (snd (tryCompress toBlob canvas fmt t st)) = []"
proof (induction "maxIterations - iteration st" arbitrary: st rule: less_induct)
  case less
  show ?case
  proof (cases "iteration st < maxIterations")
    case False
    then show ?thesis by (simp add: tryCompress_cap)
  next
    case True
    have "resizes (snd (tryCompress toBlob canvas fmt t st')) = []"
      if "onBlob t st b = Again st'" for b st'
      using onBlob_Again_iteration [OF that] True by (intro less.hyps) auto
    then show ?thesis
      by (simp add: tryCompress_step [OF True] split: option.splits next_step.splits)
  qed
qed

lemma resizes_compressImage [simp]: "resizes (snd (compressImage toBlob canvas fmt kb)) = []"
  by (simp add: compressImage_def resizes_tryCompress)

lemma resizes_compressImage_silenced [simp]:
  "resizes (silenced (snd (compressImage toBlob canvas fmt kb))) = []"
  by (simp add: resizes_silenced)

lemma searchSize_Inr:
  "fst (compressImage toBlob c (format preset) (maxSizeKB preset)) = Inr r \<Longrightarrow>
   searchSize toBlob preset c = r_size r"
  by (simp add: searchSize_def)

text \<open>
  The rule that the code follows.  A call of \<^verbatim>\<open>processImage\<close> that returns an outcome
  has made at most two resizes, each followed by one quality search.  It has made two
  (the second is the fallback retry) exactly when the file is larger than the target and
  the size reported by the first search is above the target and above half of the
  original size.  After a retry the new size is the size reported by the retry when that
  is strictly smaller than the size reported by the first search, and the latter
  otherwise; without a retry it is the size reported by the only search.
\<close>

theorem fallback_retry_rule:
  assumes "processImage loadImage toBlob file preset = (Inr out, ev)"
  shows "length (resizes ev) \<le> 2 \<and>
    (length (resizes ev) = 2 \<longleftrightarrow>
       bsize file > maxSizeKB preset * 1024 \<and>
       (\<exists>c rest. resizes ev = c # rest \<and>
          js_gt (searchSize toBlob preset c) (Fin (maxSizeKB preset * 1024)) \<and>
          js_gt (searchSize toBlob preset c) (Fin (bsize file * 0.5)))) \<and>
    (\<forall>c1 c2. resizes ev = [c1, c2] \<longrightarrow>
       newSize out = (if js_lt (searchSize toBlob preset c2) (searchSize toBlob preset c1)
                      then searchSize toBlob preset c2 else searchSize toBlob preset c1)) \<and>
    (\<forall>c1. resizes ev = [c1] \<longrightarrow> newSize out = searchSize toBlob preset c1)"
  using assms
  by (auto simp: processImage_def Let_def searchSize_Inr resizeToExact_def
           split: option.splits sum.splits if_splits)

lemma dims_square:
  "calculateOptimalDimensions 1000 1000 64000 3072 800 1067 = \<lparr>width = Fin 200, height = Fin 200\<rparr>"
  by (simp add: calculateOptimalDimensions_def Let_def sqrt_40000 round_half_up_def)

lemma search200:
  "compressImage shrinking (resizeToExact square (Fin 200) (Fin 200)) ''image/jpeg'' 3 =
    (Inr \<lparr>r_blob = Some (filled 4000 ''image/jpeg''), r_size = PosInf, r_quality = 0.92,
          r_warning = True\<rparr>,
     [Encode (resizeToExact square (Fin 200) (Fin 200)) ''image/jpeg'' 0.92, Progress 0,
      Encode (resizeToExact square (Fin 200) (Fin 200)) ''image/jpeg'' 0.84, Progress 4,
      Encode (resizeToExact square (Fin 200) (Fin 200)) ''image/jpeg'' 0.76, Progress 8,
      Encode (resizeToExact square (Fin 200) (Fin 200)) ''image/jpeg'' 0.68, Progress 12,
      Encode (resizeToExact square (Fin 200) (Fin 200)) ''image/jpeg'' 0.60, Progress 16,
      Encode (resizeToExact square (Fin 200) (Fin 200)) ''image/jpeg'' 0.52, Progress 20,
      Encode (resizeToExact square (Fin 200) (Fin 200)) ''image/jpeg'' 0.44, Progress 24,
      Encode (resizeToExact square (Fin 200) (Fin 200)) ''image/jpeg'' 0.36, Progress 28,
      Encode (resizeToExact square (Fin 200) (Fin 200)) ''image/jpeg'' 0.3, Progress 32])"
  by (simp add: search_eval shrinking_def resizeToExact_def)

lemma search100:
  "compressImage shrinking (resizeToExact square (Fin 100) (Fin 100)) ''image/jpeg'' 3 =
    (Inr \<lparr>r_blob = Some (filled 900 ''image/jpeg''), r_size = Fin 900, r_quality = 0.92,
          r_warning = False\<rparr>,
     [Encode (resizeToExact square (Fin 100) (Fin 100)) ''image/jpeg'' 0.92, Progress 0])"
  by (simp add: search_eval shrinking_def resizeToExact_def)

text \<open>
  A run with a retry: a 1000 by 1000 image of 5000 bytes and a target of 3 KB.  The first
  search, on the planned 200 by 200 canvas, stays over the target and reports an infinite
  size; the retry, on a 100 by 100 canvas, yields 900 bytes, which is returned.
\<close>

lemma retry_run:
  "processImage decodesSquare shrinking (filled 5000 ''image/jpeg'') (jpegUnder 3) =
     (Inr \<lparr>out_blob = Some (filled 900 ''image/jpeg''), originalSize = 5000, newSize = Fin 900,
           originalDimensions = \<lparr>width = Fin 1000, height = Fin 1000\<rparr>,
           newDimensions = \<lparr>width = Fin 100, height = Fin 100\<rparr>,
           warning = False, alreadyOptimal = False\<rparr>,
      [Progress 10, Progress 20,
       Draw \<lparr>c_surface = ImageSurface square, c_fit = Stretch, c_width = Fin 200, c_height = Fin 200\<rparr>,
       Encode \<lparr>c_surface = ImageSurface square, c_fit = Stretch, c_width = Fin 200, c_height = Fin 200\<rparr>
         ''image/jpeg'' 0.8,
       Progress 35, Progress 45, Draw (resizeToExact square (Fin 200) (Fin 200)), Progress 55,
       Encode (resizeToExact square (Fin 200) (Fin 200)) ''image/jpeg'' 0.92, Progress 0,
       Encode (resizeToExact square (Fin 200) (Fin 200)) ''image/jpeg'' 0.84, Progress 4,
       Encode (resizeToExact square (Fin 200) (Fin 200)) ''image/jpeg'' 0.76, Progress 8,
       Encode (resizeToExact square (Fin 200) (Fin 200)) ''image/jpeg'' 0.68, Progress 12,
       Encode (resizeToExact square (Fin 200) (Fin 200)) ''image/jpeg'' 0.60, Progress 16,
       Encode (resizeToExact square (Fin 200) (Fin 200)) ''image/jpeg'' 0.52, Progress 20,
       Encode (resizeToExact square (Fin 200) (Fin 200)) ''image/jpeg'' 0.44, Progress 24,
       Encode (resizeToExact square (Fin 200) (Fin 200)) ''image/jpeg'' 0.36, Progress 28,
       Encode (resizeToExact square (Fin 200) (Fin 200)) ''image/jpeg'' 0.3, Progress 32,
       Progress 100, Draw (resizeToExact square (Fin 100) (Fin 100)),
       Encode (resizeToExact square (Fin 100) (Fin 100)) ''image/jpeg'' 0.92])"
proof -
  have test: "shrinking \<lparr>c_surface = ImageSurface square, c_fit = Stretch, c_width = Fin 200,
      c_height = Fin 200\<rparr> ''image/jpeg'' 0.8 = Some (filled 2560 ''image/jpeg'')"
    by (simp add: shrinking_def)
  have sq: "img_width square = 1000" "img_height square = 1000" by (simp_all add: square_def)
  show ?thesis
    by (simp add: processImage_def decodesSquare_def jpegUnder_def Let_def sq shrinking_def
          dims_square search200 search100 silenced_def js_gt_def)
qed

theorem fallback_retry_rule_witness:
  "length (resizes (snd (processImage decodesSquare shrinking (filled 5000 ''image/jpeg'')
      (jpegUnder 3)))) = 2 \<and>
   maxSizeKB (jpegUnder 3) * 1024 < bsize (filled 5000 ''image/jpeg'') \<and>
   js_gt (searchSize shrinking (jpegUnder 3) (resizeToExact square (Fin 200) (Fin 200)))
     (Fin (maxSizeKB (jpegUnder 3) * 1024)) \<and>
   js_lt (searchSize shrinking (jpegUnder 3) (resizeToExact square (Fin 100) (Fin 100)))
     (searchSize shrinking (jpegUnder 3) (resizeToExact square (Fin 200) (Fin 200))) \<and>
   Fin 900 = searchSize shrinking (jpegUnder 3) (resizeToExact square (Fin 100) (Fin 100))"
proof -
  have s200: "searchSize shrinking (jpegUnder 3) (resizeToExact square (Fin 200) (Fin 200)) = PosInf"
    and s100: "searchSize shrinking (jpegUnder 3) (resizeToExact square (Fin 100) (Fin 100)) = Fin 900"
    by (simp_all add: searchSize_def jpegUnder_def search200 search100)
  have rs: "resizes (snd (processImage decodesSquare shrinking (filled 5000 ''image/jpeg'')
      (jpegUnder 3))) =
      [resizeToExact square (Fin 200) (Fin 200), resizeToExact square (Fin 100) (Fin 100)]"
    by (simp add: retry_run resizeToExact_def)
  from fallback_retry_rule [OF retry_run] rs s200 s100 show ?thesis
    by (simp add: jpegUnder_def js_gt_def)
qed

text \<open>
  On the format-conversion path no retry follows, whatever the search reports: the
  100-byte PNG below fits the 1 KB target, its conversion to JPEG stays over the target
  at every quality, and the run has a single resize.
\<close>

theorem conversion_is_never_retried:
  "fst (processImage decodes (steady 3000) (filled 100 ''image/png'') (jpegUnder 1)) =
     Inr \<lparr>out_blob = Some (filled 3000 ''image/jpeg''), originalSize = 100, newSize = PosInf,
           originalDimensions = \<lparr>width = Fin 1000, height = Fin 800\<rparr>,
           newDimensions = \<lparr>width = Fin 1000, height = Fin 800\<rparr>,
           warning = True, alreadyOptimal = False\<rparr> \<and>
   resizes (snd (processImage decodes (steady 3000) (filled 100 ''image/png'') (jpegUnder 1))) =
     [resizeToExact photo (Fin 1000) (Fin 800)] \<and>
   searchSize (steady 3000) (jpegUnder 1) (resizeToExact photo (Fin 1000) (Fin 800)) = PosInf \<and>
   js_gt PosInf (Fin (maxSizeKB (jpegUnder 1) * 1024 + bsize (filled 100 ''image/png'') * 0.5))"
  by (simp add: image_eval search_eval steady_def searchSize_def)

lemma search200_stubborn:
  "fst (compressImage stubborn (resizeToExact square (Fin 200) (Fin 200)) ''image/jpeg'' 3) =
    Inr \<lparr>r_blob = Some (filled 4000 ''image/jpeg''), r_size = PosInf, r_quality = 0.92,
          r_warning = True\<rparr>"
  by (simp add: search_eval stubborn_def resizeToExact_def)

lemma search100_stubborn:
  "fst (compressImage stubborn (resizeToExact square (Fin 100) (Fin 100)) ''image/jpeg'' 3) =
    Inr \<lparr>r_blob = Some (filled 3500 ''image/jpeg''), r_size = PosInf, r_quality = 0.92,
          r_warning = True\<rparr>"
  by (simp add: search_eval stubborn_def resizeToExact_def)

text \<open>
  Claim C6 fails in the comparison of the two attempts.  A search that stops at the
  quality floor with no encode under the target reports the size \<^verbatim>\<open>Infinity\<close>, and
  \<^verbatim>\<open>retryResult.size < result.size\<close> compares the reported sizes.  For the 1000 by 1000
  image of 5000 bytes below and a target of 3 KB, every encode of the planned 200 by 200
  canvas has 4000 bytes and every encode of the 100 by 100 canvas of the retry has 3500
  bytes.  Both searches report \<^verbatim>\<open>Infinity\<close>, the comparison is false, and the outcome
  holds the 4000-byte blob of the first attempt, although the retry produced the smaller
  encoded size.
\<close>

theorem retry_keeps_larger_first_attempt:
  "fst (processImage decodesSquare stubborn (filled 5000 ''image/jpeg'') (jpegUnder 3)) =
     Inr \<lparr>out_blob = Some (filled 4000 ''image/jpeg''), originalSize = 5000, newSize = PosInf,
           originalDimensions = \<lparr>width = Fin 1000, height = Fin 1000\<rparr>,
           newDimensions = \<lparr>width = Fin 200, height = Fin 200\<rparr>,
           warning = True, alreadyOptimal = False\<rparr> \<and>
   resizes (snd (processImage decodesSquare stubborn (filled 5000 ''image/jpeg'') (jpegUnder 3))) =
     [resizeToExact square (Fin 200) (Fin 200), resizeToExact square (Fin 100) (Fin 100)] \<and>
   fst (compressImage stubborn (resizeToExact square (Fin 200) (Fin 200)) ''image/jpeg'' 3) =
     Inr \<lparr>r_blob = Some (filled 4000 ''image/jpeg''), r_size = PosInf, r_quality = 0.92,
           r_warning = True\<rparr> \<and>
   fst (compressImage stubborn (resizeToExact square (Fin 100) (Fin 100)) ''image/jpeg'' 3) =
     Inr \<lparr>r_blob = Some (filled 3500 ''image/jpeg''), r_size = PosInf, r_quality = 0.92,
           r_warning = True\<rparr> \<and>
   bsize (filled 3500 ''image/jpeg'') < bsize (filled 4000 ''image/jpeg'')"
proof -
  have run: "fst (processImage decodesSquare stubborn (filled 5000 ''image/jpeg'') (jpegUnder 3)) =
     Inr \<lparr>out_blob = Some (filled 4000 ''image/jpeg''), originalSize = 5000, newSize = PosInf,
           originalDimensions = \<lparr>width = Fin 1000, height = Fin 1000\<rparr>,
           newDimensions = \<lparr>width = Fin 200, height = Fin 200\<rparr>,
           warning = True, alreadyOptimal = False\<rparr>"
    and rs: "resizes (snd (processImage decodesSquare stubborn (filled 5000 ''image/jpeg'')
        (jpegUnder 3))) =
     [resizeToExact square (Fin 200) (Fin 200), resizeToExact square (Fin 100) (Fin 100)]"
    by (simp_all add: processImage_def decodesSquare_def jpegUnder_def Let_def square_def
          stubborn_def dims_square search_eval resizeToExact_def silenced_def js_gt_def)
  from run rs search200_stubborn search100_stubborn show ?thesis by simp
qed

section \<open>Progress notifications\<close>

lemma orderly_Cons:
  assumes "orderly lo' ok pv" and "lo \<le> p" and "p \<le> lo'" and "p < 100"
  shows "orderly lo ok (p # pv)"
proof -
  from assms have "\<forall>x \<in> set pv. p \<le> x" by (auto simp: orderly_def)
  with assms have "sorted (p # pv)" by (simp add: orderly_def)
  moreover from assms have "\<forall>x \<in> set (p # pv). lo \<le> x \<and> x \<le> 100"
    by (auto simp: orderly_def)
  moreover from assms have "pv \<noteq> [] \<and> last pv = 100 \<and> count_list pv 100 = 1
      \<Longrightarrow> last (p # pv) = 100 \<and> count_list (p # pv) 100 = 1"
    by simp
  moreover from assms have "100 \<notin> set pv \<Longrightarrow> 100 \<notin> set (p # pv)" by simp
  ultimately show ?thesis using assms(1) unfolding orderly_def by (cases ok) simp_all
qed

lemma attemptLoop_progress:
  "attempt \<le> maxAttempts \<Longrightarrow>
   orderly (10 + 8 * int attempt) (\<not> isl (fst (attemptLoop rebuild t attempt q best)))
     (progressValues (snd (attemptLoop rebuild t attempt q best)))"
proof (induction "maxAttempts - attempt" arbitrary: attempt q best rule: less_induct)
  case less
  show ?case
  proof (cases "attempt < maxAttempts")
    case False
    with less.prems show ?thesis
      by (simp add: attemptLoop_done orderly_def)
  next
    case True
    note step = attemptLoop_step [OF True, of rebuild t q best]
    show ?thesis
    proof (cases "rebuild q")
      case (Inl f)
      with True step show ?thesis by (simp add: orderly_def)
    next
      case (Inr b)
      show ?thesis
      proof (cases "adjustQuality t q b")
        case Accept
        with Inr True step show ?thesis by (simp add: orderly_def)
      next
        case Stop
        with Inr True step show ?thesis by (simp add: orderly_def)
      next
        case (Adjust q')
        have "orderly (10 + 8 * int (attempt + 1))
            (\<not> isl (fst (attemptLoop rebuild t (attempt + 1) q' (trackBest t b best))))
            (progressValues (snd (attemptLoop rebuild t (attempt + 1) q' (trackBest t b best))))"
          using True by (intro less.hyps) auto
        then have "orderly (10 + 8 * int attempt)
            (\<not> isl (fst (attemptLoop rebuild t (attempt + 1) q' (trackBest t b best))))
            ((10 + 8 * int attempt) #
              progressValues (snd (attemptLoop rebuild t (attempt + 1) q' (trackBest t b best))))"
          by (rule orderly_Cons) (use True in auto)
        with Inr Adjust step show ?thesis by simp
      qed
    qed
  qed
qed

lemma compressFullPDF_progress:
  "orderly 10 (\<not> isl (fst (compressFullPDF getPageCount rebuildPDF file kb)))
     (progressValues (snd (compressFullPDF getPageCount rebuildPDF file kb)))"
proof (cases "getPageCount file")
  case None
  then show ?thesis by (simp add: compressFullPDF_def orderly_def)
next
  case (Some n)
  have "orderly (10 + 8 * int 0)
      (\<not> isl (fst (attemptLoop (rebuildPDF file n) (kb * 1024) 0 0.75 (None, PosInf))))
      (progressValues (snd (attemptLoop (rebuildPDF file n) (kb * 1024) 0 0.75 (None, PosInf))))"
    by (rule attemptLoop_progress) simp
  then have "orderly 10
      (\<not> isl (fst (attemptLoop (rebuildPDF file n) (kb * 1024) 0 0.75 (None, PosInf))))
      (10 # progressValues (snd (attemptLoop (rebuildPDF file n) (kb * 1024) 0 0.75 (None, PosInf))))"
    by (rule orderly_Cons) auto
  with Some show ?thesis
    by (auto simp: compressFullPDF_def Let_def split: sum.splits prod.splits)
qed

lemma progressValues_pageLoop:
  "progressValues (snd (pageLoop toBlob canvas fmt t rb st)) = []"
proof (induction "maxIterations - iteration st" arbitrary: st rb rule: less_induct)
  case less
  show ?case
  proof (cases "iteration st < maxIterations")
    case False
    then show ?thesis by (simp add: pageLoop_cap)
  next
    case True
    have "progressValues (snd (pageLoop toBlob canvas fmt t rb' st')) = []"
      if "onPageBlob t st b = Continue st'" for b st' rb'
      using onPageBlob_Continue_iteration [OF that] True by (intro less.hyps) auto
    with True show ?thesis
      by (subst pageLoop.simps) (simp add: Let_def split: option.splits page_step.splits)
  qed
qed

lemma progressValues_pageSearch [simp]:
  "progressValues (snd (pageSearch toBlob canvas fmt t)) = []"
  by (simp add: pageSearch_def Let_def progressValues_pageLoop)

lemma progressValues_processPage [simp]:
  "progressValues (snd (processPage renderPageToCanvas toBlob wrapPDF file preset n p)) = []"
  by (simp add: processPage_def Let_def split: option.splits sum.splits prod.splits)

lemma round_half_up_mono: "x \<le> y \<Longrightarrow> round_half_up x \<le> round_half_up y"
  unfolding round_half_up_def by (simp add: floor_mono)

lemma page_progress_mono:
  "round_half_up (real idx * (70 / real len)) \<le> round_half_up (real (idx + 1) * (70 / real len))"
proof (rule round_half_up_mono)
  have "real idx \<le> real (idx + 1)" and "0 \<le> 70 / real len" by simp_all
  then show "real idx * (70 / real len) \<le> real (idx + 1) * (70 / real len)"
    by (rule mult_right_mono)
qed

lemma page_progress_bound:
  assumes "idx < len"
  shows "round_half_up (real idx * (70 / real len)) \<le> 70"
proof -
  from assms have "real idx * (70 / real len) \<le> 70"
    by (simp add: field_simps)
  then show ?thesis unfolding round_half_up_def by linarith
qed

lemma pagesFrom_progress:
  assumes "\<And>p. progressValues (snd (body p)) = []"
  shows "idx + length pages \<le> len \<Longrightarrow>
    orderly (20 + round_half_up (real idx * (70 / real len))) False
      (progressValues (snd (pagesFrom body len idx pages)))"
proof (induction pages arbitrary: idx)
  case Nil
  then show ?case by (simp add: orderly_def)
next
  case (Cons p pages)
  from Cons.prems have lt: "idx < len" and rest: "(idx + 1) + length pages \<le> len" by simp_all
  let ?f = "\<lambda>i. 20 + round_half_up (real i * (70 / real len))"
  have "orderly (?f (idx + 1)) False (progressValues (snd (pagesFrom body len (idx + 1) pages)))"
    using rest by (rule Cons.IH)
  then have tail: "orderly (?f idx) False
      (?f idx # progressValues (snd (pagesFrom body len (idx + 1) pages)))"
    by (rule orderly_Cons) (use page_progress_mono [of idx len] page_progress_bound [OF lt] in auto)
  have single: "orderly (?f idx) False [?f idx]"
    using page_progress_bound [OF lt] by (simp add: orderly_def)
  show ?case
    using tail single assms
    by (simp add: Let_def split: sum.splits)
qed

lemma orderly_finish:
  assumes "orderly lo False pv" and "lo \<le> 100"
  shows "orderly lo True (pv @ [100])"
proof -
  from assms have "sorted (pv @ [100])" by (auto simp: orderly_def sorted_append)
  moreover from assms have "count_list (pv @ [100]) 100 = 1"
    by (simp add: orderly_def count_list_0_iff [THEN iffD2])
  ultimately show ?thesis using assms by (auto simp: orderly_def)
qed

lemma extractAndProcessPages_progress:
  "orderly 10 (\<not> isl (fst (extractAndProcessPages getPageCount renderPageToCanvas toBlob wrapPDF
       file spec preset)))
     (progressValues (snd (extractAndProcessPages getPageCount renderPageToCanvas toBlob wrapPDF
       file spec preset)))"
proof (cases "getPageCount file")
  case None
  then show ?thesis by (simp add: extractAndProcessPages_def orderly_def)
next
  case (Some n)
  define pages where "pages = (case spec of AllPages \<Rightarrow> map int [1..<Suc n] | PageNumber p \<Rightarrow> [p])"
  define run where "run = pagesFrom (processPage renderPageToCanvas toBlob wrapPDF file preset n)
      (length pages) 0 pages"
  have "orderly (20 + round_half_up (real 0 * (70 / real (length pages)))) False
      (progressValues (snd run))"
    unfolding run_def by (rule pagesFrom_progress) simp_all
  then have body: "orderly 20 False (progressValues (snd run))"
    by (simp add: round_half_up_def)
  then have "orderly 20 True (progressValues (snd run) @ [100])"
    by (rule orderly_finish) simp
  then have ok: "orderly 10 True (10 # progressValues (snd run) @ [100])"
    by (rule orderly_Cons) simp_all
  from body have bad: "orderly 10 False (10 # progressValues (snd run))"
    by (rule orderly_Cons) simp_all
  from Some ok bad show ?thesis
    by (simp add: extractAndProcessPages_def Let_def pages_def [symmetric] run_def [symmetric]
             split: sum.splits)
qed

text \<open>
  Claim C7, as amended.  For every call of \<^verbatim>\<open>compressFullPDF\<close> and of
  \<^verbatim>\<open>extractAndProcessPages\<close> the progress values delivered are non-decreasing.  A
  call that returns a result has delivered 100 exactly once, as its last value; a call
  that fails has not delivered 100.
\<close>

theorem pdf_progress_ordered:
  "sorted (progressValues (snd (compressFullPDF getPageCount rebuildPDF file kb))) \<and>
   (\<forall>out. fst (compressFullPDF getPageCount rebuildPDF file kb) = Inr out \<longrightarrow>
      last (progressValues (snd (compressFullPDF getPageCount rebuildPDF file kb))) = 100 \<and>
      count_list (progressValues (snd (compressFullPDF getPageCount rebuildPDF file kb))) 100 = 1) \<and>
   (\<forall>f. fst (compressFullPDF getPageCount rebuildPDF file kb) = Inl f \<longrightarrow>
      100 \<notin> set (progressValues (snd (compressFullPDF getPageCount rebuildPDF file kb)))) \<and>
   sorted (progressValues (snd (extractAndProcessPages getPageCount renderPageToCanvas toBlob
     wrapPDF file spec preset))) \<and>
   (\<forall>outs. fst (extractAndProcessPages getPageCount renderPageToCanvas toBlob wrapPDF
        file spec preset) = Inr outs \<longrightarrow>
      last (progressValues (snd (extractAndProcessPages getPageCount renderPageToCanvas toBlob
        wrapPDF file spec preset))) = 100 \<and>
      count_list (progressValues (snd (extractAndProcessPages getPageCount renderPageToCanvas
        toBlob wrapPDF file spec preset))) 100 = 1) \<and>
   (\<forall>f. fst (extractAndProcessPages getPageCount renderPageToCanvas toBlob wrapPDF
        file spec preset) = Inl f \<longrightarrow>
      100 \<notin> set (progressValues (snd (extractAndProcessPages getPageCount renderPageToCanvas
        toBlob wrapPDF file spec preset))))"
proof -
  have "orderly 10 (\<not> isl (fst (compressFullPDF getPageCount rebuildPDF file kb)))
     (progressValues (snd (compressFullPDF getPageCount rebuildPDF file kb)))"
    by (rule compressFullPDF_progress)
  moreover have "orderly 10
     (\<not> isl (fst (extractAndProcessPages getPageCount renderPageToCanvas toBlob wrapPDF
       file spec preset)))
     (progressValues (snd (extractAndProcessPages getPageCount renderPageToCanvas toBlob wrapPDF
       file spec preset)))"
    by (rule extractAndProcessPages_progress)
  ultimately show ?thesis
    by (auto simp: orderly_def split: if_splits)
qed

lemma pages_run:
  "\<exists>outs. fst (extractAndProcessPages threePages renders (steady 900) wraps
      (filled 5000 ''application/pdf'') AllPages (jpegUnder 1)) = Inr outs"
  "progressValues (snd (extractAndProcessPages threePages renders (steady 900) wraps
      (filled 5000 ''application/pdf'') AllPages (jpegUnder 1))) = [10, 20, 43, 67, 100]"
  by (simp_all add: extractAndProcessPages_def threePages_def processPage_def renders_def
        steady_def jpegUnder_def Let_def page_search_eval round_half_up_def upt_rec)

lemma document_run:
  "\<exists>out. fst (compressFullPDF threePages stepped (filled 5000 ''application/pdf'') 1) = Inr out"
  "progressValues (snd (compressFullPDF threePages stepped (filled 5000 ''application/pdf'') 1)) =
     [10, 10, 18, 26, 34, 42, 50, 58, 66, 74, 82, 100]"
  by (simp_all add: doc_eval threePages_def stepped_def)

theorem pdf_progress_ordered_witness:
  "sorted (progressValues (snd (compressFullPDF threePages stepped
      (filled 5000 ''application/pdf'') 1))) \<and>
   last (progressValues (snd (compressFullPDF threePages stepped
      (filled 5000 ''application/pdf'') 1))) = 100 \<and>
   count_list (progressValues (snd (compressFullPDF threePages stepped
      (filled 5000 ''application/pdf'') 1))) 100 = 1 \<and>
   sorted (progressValues (snd (extractAndProcessPages threePages renders (steady 900) wraps
      (filled 5000 ''application/pdf'') AllPages (jpegUnder 1)))) \<and>
   last (progressValues (snd (extractAndProcessPages threePages renders (steady 900) wraps
      (filled 5000 ''application/pdf'') AllPages (jpegUnder 1)))) = 100 \<and>
   count_list (progressValues (snd (extractAndProcessPages threePages renders (steady 900) wraps
      (filled 5000 ''application/pdf'') AllPages (jpegUnder 1)))) 100 = 1"
proof -
  from document_run(1) obtain out where
    a: "fst (compressFullPDF threePages stepped (filled 5000 ''application/pdf'') 1) = Inr out"
    by blast
  from pages_run(1) obtain outs where
    b: "fst (extractAndProcessPages threePages renders (steady 900) wraps
      (filled 5000 ''application/pdf'') AllPages (jpegUnder 1)) = Inr outs"
    by blast
  from pdf_progress_ordered [of threePages stepped "filled 5000 ''application/pdf''" 1
      renders "steady 900" wraps AllPages "jpegUnder 1"] a b
  show ?thesis by blast
qed

text \<open>
  Claim C7 as stated fails for \<^verbatim>\<open>processImage\<close>: the quality search reports its own
  progress, from 0, to the callback that has already received 55.  On a 5000-byte image
  and a 1 KB target, with an encoder that fits the target at once, the values delivered
  are 10, 20, 35, 45, 55, 0, 100.
\<close>

theorem image_progress_restarts:
  "progressValues (snd (processImage decodes (steady 900) (filled 5000 ''image/jpeg'') (jpegUnder 1)))
     = [10, 20, 35, 45, 55, 0, 100] \<and>
   \<not> sorted [10, 20, 35, 45, 55, 0, 100 :: int]"
  by (simp add: image_eval search_eval steady_def)

section \<open>Presets are not validated\<close>

text \<open>
  Claim C8, as amended.  No entry point checks the preset.  For a preset whose target
  size or maximum dimensions are not positive: \<^verbatim>\<open>processImage\<close> draws and encodes the
  test thumbnail of every file that decodes and is larger than the target, and returns
  unchanged every file that decodes, fits the target and has the requested format;
  \<^verbatim>\<open>compressFullPDF\<close> rebuilds the document at quality 0.75 whenever the page count can
  be read; \<^verbatim>\<open>extractAndProcessPages\<close> renders the requested page.
\<close>

theorem preset_is_never_validated:
  assumes "maxSizeKB preset \<le> 0 \<or> widthPx preset \<le> 0 \<or> heightPx preset \<le> 0"
  shows "(\<forall>img. loadImage file = Some img \<and> maxSizeKB preset * 1024 < bsize file \<longrightarrow>
            (\<exists>c. c_fit c = Stretch \<and>
                 Draw c \<in> set (snd (processImage loadImage toBlob file preset)) \<and>
                 Encode c (format preset) 0.8 \<in> set (snd (processImage loadImage toBlob file preset)))) \<and>
         (\<forall>img. loadImage file' = Some img \<and> bsize file' \<le> maxSizeKB preset * 1024 \<and>
                mime file' = format preset \<longrightarrow>
            (\<exists>out. fst (processImage loadImage toBlob file' preset) = Inr out \<and>
                   out_blob out = Some file')) \<and>
         (\<forall>n. getPageCount doc = Some n \<longrightarrow>
            Rebuild 0.75 \<in> set (snd (compressFullPDF getPageCount rebuildPDF doc (maxSizeKB preset)))) \<and>
         (\<forall>n. getPageCount doc = Some n \<longrightarrow>
            Render p (max 2.0 (widthPx preset / 400)) \<in>
              set (snd (extractAndProcessPages getPageCount renderPageToCanvas toBlob wrapPDF doc
                     (PageNumber p) preset)))"
proof (intro conjI allI impI)
  fix img
  assume "loadImage file = Some img \<and> maxSizeKB preset * 1024 < bsize file"
  then show "\<exists>c. c_fit c = Stretch \<and>
      Draw c \<in> set (snd (processImage loadImage toBlob file preset)) \<and>
      Encode c (format preset) 0.8 \<in> set (snd (processImage loadImage toBlob file preset))"
    by (auto simp: processImage_def Let_def split: option.splits sum.splits
        intro!: exI [of _ "\<lparr>c_surface = ImageSurface img, c_fit = Stretch,
          c_width = Fin (of_int (max 100 \<lfloor>real (img_width img) * 0.2\<rfloor>)),
          c_height = Fin (of_int (max 100 \<lfloor>real (img_height img) * 0.2\<rfloor>))\<rparr>"])
next
  fix img
  assume "loadImage file' = Some img \<and> bsize file' \<le> maxSizeKB preset * 1024 \<and>
    mime file' = format preset"
  then show "\<exists>out. fst (processImage loadImage toBlob file' preset) = Inr out \<and>
      out_blob out = Some file'"
    by (simp add: processImage_def Let_def)
next
  fix n
  assume "getPageCount doc = Some n"
  then show "Rebuild 0.75 \<in>
      set (snd (compressFullPDF getPageCount rebuildPDF doc (maxSizeKB preset)))"
    by (simp add: compressFullPDF_def Let_def attemptLoop_step
          split: sum.splits doc_step.splits prod.splits)
next
  fix n
  assume "getPageCount doc = Some n"
  then show "Render p (max 2.0 (widthPx preset / 400)) \<in>
      set (snd (extractAndProcessPages getPageCount renderPageToCanvas toBlob wrapPDF doc
             (PageNumber p) preset))"
    by (simp add: extractAndProcessPages_def processPage_def Let_def
          split: sum.splits option.splits prod.splits)
qed

theorem preset_is_never_validated_witness:
  "(\<exists>c. c_fit c = Stretch \<and>
       Draw c \<in> set (snd (processImage decodes (careful 900) (filled 5000 ''image/jpeg'') flatPreset)) \<and>
       Encode c (format flatPreset) 0.8 \<in>
         set (snd (processImage decodes (careful 900) (filled 5000 ''image/jpeg'') flatPreset))) \<and>
   (\<exists>out. fst (processImage decodes (careful 900) (filled 100 ''image/jpeg'') flatPreset) = Inr out \<and>
       out_blob out = Some (filled 100 ''image/jpeg'')) \<and>
   Rebuild 0.75 \<in> set (snd (compressFullPDF threePages stepped (filled 5000 ''application/pdf'')
     (maxSizeKB flatPreset))) \<and>
   Render 2 (max 2.0 (widthPx flatPreset / 400)) \<in>
     set (snd (extractAndProcessPages threePages renders (careful 900) wraps
            (filled 5000 ''application/pdf'') (PageNumber 2) flatPreset))"
proof -
  have bad: "maxSizeKB flatPreset \<le> 0 \<or> widthPx flatPreset \<le> 0 \<or> heightPx flatPreset \<le> 0"
    by (simp add: flatPreset_def)
  have big: "decodes (filled 5000 ''image/jpeg'') = Some photo \<and>
      maxSizeKB flatPreset * 1024 < bsize (filled 5000 ''image/jpeg'')"
    and small: "decodes (filled 100 ''image/jpeg'') = Some photo \<and>
      bsize (filled 100 ''image/jpeg'') \<le> maxSizeKB flatPreset * 1024 \<and>
      mime (filled 100 ''image/jpeg'') = format flatPreset"
    and pages: "threePages (filled 5000 ''application/pdf'') = Some 3"
    by (simp_all add: decodes_def flatPreset_def threePages_def)
  from preset_is_never_validated [OF bad, of decodes "filled 5000 ''image/jpeg''" "careful 900"
      "filled 100 ''image/jpeg''" threePages "filled 5000 ''application/pdf''" stepped 2 renders wraps]
    big small pages
  show ?thesis by blast
qed

lemma dims_zero_target:
  "calculateOptimalDimensions 1000 800 22500 0 800 1067 = \<lparr>width = NaN, height = NaN\<rparr>"
  by (simp add: calculateOptimalDimensions_def Let_def js_inf_def)

text \<open>
  Claim C8 as stated fails: nothing is rejected.  With maximum dimensions of 0 and -5, a
  file that fits the target is returned as a normal outcome.  With a target of 0 KB, a
  5000-byte file is decoded, its test thumbnail is drawn and encoded, dimensions are
  planned (they come out as \<^verbatim>\<open>NaN\<close>), a canvas is made and the quality search starts
  its first encode; the encoder has no blob for that canvas, and the call never settles.
\<close>

theorem invalid_preset_is_processed:
  "fst (processImage decodes (careful 900) (filled 100 ''image/jpeg'') flatPreset) =
     Inr \<lparr>out_blob = Some (filled 100 ''image/jpeg''), originalSize = 100, newSize = Fin 100,
           originalDimensions = \<lparr>width = Fin 1000, height = Fin 800\<rparr>,
           newDimensions = \<lparr>width = Fin 1000, height = Fin 800\<rparr>,
           warning = False, alreadyOptimal = True\<rparr> \<and>
   processImage decodes (careful 900) (filled 5000 ''image/jpeg'') (jpegUnder 0) =
     (Inl NeverSettles,
      [Progress 10, Progress 20,
       Draw \<lparr>c_surface = ImageSurface photo, c_fit = Stretch, c_width = Fin 200, c_height = Fin 160\<rparr>,
       Encode \<lparr>c_surface = ImageSurface photo, c_fit = Stretch, c_width = Fin 200, c_height = Fin 160\<rparr>
         ''image/jpeg'' 0.8,
       Progress 35, Progress 45, Draw (resizeToExact photo NaN NaN), Progress 55,
       Encode (resizeToExact photo NaN NaN) ''image/jpeg'' 0.92, Progress 0])"
proof -
  have ph: "img_width photo = 1000" "img_height photo = 800" by (simp_all add: photo_def)
  have bad: "careful 900 (resizeToExact photo NaN NaN) ''image/jpeg'' q = None" for q
    by (simp add: careful_def drawable_def resizeToExact_def)
  have search: "compressImage (careful 900) (resizeToExact photo NaN NaN) ''image/jpeg'' 0 =
      (Inl NeverSettles, [Encode (resizeToExact photo NaN NaN) ''image/jpeg'' 0.92, Progress 0])"
    by (simp add: compressImage_def tryCompress.simps bad round_half_up_def)
  show ?thesis
    by (simp add: processImage_def decodes_def flatPreset_def jpegUnder_def Let_def ph careful_def
          drawable_def dims_zero_target search)
qed

end
